theory Spec2Isabelle
  imports Main "HOL-Library.Sublist" "HOL-Library.Code_Target_Numeral"
begin

section \<open>Texts\<close>

text \<open>
  A text is a list of code units, written as a \<^typ>\<open>string\<close>: the embedding covers the
  texts whose code units are below 256. The character classes and the case mappings below
  are those of ECMAScript on that range. White space, for \<open>\s\<close> and for \<open>trim\<close>, is tab,
  line feed, vertical tab, form feed, carriage return, space and the no-break space
  U+00A0; \<open>.\<close> excludes line feed and carriage return; \<open>\d\<close> is \<open>0\<close> to \<open>9\<close>.
\<close>

definition isSpace :: "char \<Rightarrow> bool" where
  "isSpace c = (c \<in> set [CHR 0x09, CHR 0x0A, CHR 0x0B, CHR 0x0C, CHR 0x0D, CHR 0x20, CHR 0xA0])"

definition isLineTerminator :: "char \<Rightarrow> bool" where
  "isLineTerminator c = (c = CHR 0x0A \<or> c = CHR 0x0D)"

definition isDigit :: "char \<Rightarrow> bool" where
  "isDigit c = (c \<in> set ''0123456789'')"

text \<open>\<open>String.prototype.trim\<close>.\<close>

definition trim :: "string \<Rightarrow> string" where
  "trim s = rev (dropWhile isSpace (rev (dropWhile isSpace s)))"

text \<open>\<open>s.split(d)\<close> for a separator of one character: never the empty list.\<close>

fun splitOn :: "char \<Rightarrow> string \<Rightarrow> string list" where
  "splitOn d [] = [[]]"
| "splitOn d (c # cs) =
     (if c = d then [] # splitOn d cs
      else (case splitOn d cs of [] \<Rightarrow> [[c]] | l # ls \<Rightarrow> (c # l) # ls))"

text \<open>\<open>xs.join(sep)\<close>.\<close>

fun joinWith :: "string \<Rightarrow> string list \<Rightarrow> string" where
  "joinWith sep [] = []"
| "joinWith sep [x] = x"
| "joinWith sep (x # y # ys) = x @ sep @ joinWith sep (y # ys)"

definition upperLetters :: string where
  "upperLetters = ''ABCDEFGHIJKLMNOPQRSTUVWXYZ''"

definition lowerLetters :: string where
  "lowerLetters = ''abcdefghijklmnopqrstuvwxyz''"

text \<open>
  The letters above U+007F that have a case: U+00C0 to U+00DE without the multiplication
  sign U+00D7, and U+00E0 to U+00FE without the division sign U+00F7, each 32 above its
  capital.
\<close>

definition upperLatin :: string where
  "upperLatin =
     [CHR 0xC0, CHR 0xC1, CHR 0xC2, CHR 0xC3, CHR 0xC4, CHR 0xC5, CHR 0xC6, CHR 0xC7,
      CHR 0xC8, CHR 0xC9, CHR 0xCA, CHR 0xCB, CHR 0xCC, CHR 0xCD, CHR 0xCE, CHR 0xCF,
      CHR 0xD0, CHR 0xD1, CHR 0xD2, CHR 0xD3, CHR 0xD4, CHR 0xD5, CHR 0xD6, CHR 0xD8,
      CHR 0xD9, CHR 0xDA, CHR 0xDB, CHR 0xDC, CHR 0xDD, CHR 0xDE]"

definition lowerLatin :: string where
  "lowerLatin =
     [CHR 0xE0, CHR 0xE1, CHR 0xE2, CHR 0xE3, CHR 0xE4, CHR 0xE5, CHR 0xE6, CHR 0xE7,
      CHR 0xE8, CHR 0xE9, CHR 0xEA, CHR 0xEB, CHR 0xEC, CHR 0xED, CHR 0xEE, CHR 0xEF,
      CHR 0xF0, CHR 0xF1, CHR 0xF2, CHR 0xF3, CHR 0xF4, CHR 0xF5, CHR 0xF6, CHR 0xF8,
      CHR 0xF9, CHR 0xFA, CHR 0xFB, CHR 0xFC, CHR 0xFD, CHR 0xFE]"

text \<open>\<open>String.prototype.toLowerCase\<close>: every capital has its small letter in the range.\<close>

definition toLowerCase :: "string \<Rightarrow> string" where
  "toLowerCase s =
     map (\<lambda>c. case map_of (zip (upperLetters @ upperLatin) (lowerLetters @ lowerLatin)) c of
               Some l \<Rightarrow> l | None \<Rightarrow> c) s"

text \<open>
  \<open>String.prototype.toUpperCase\<close>. The sharp s U+00DF becomes \<open>SS\<close>. The capitals of the
  micro sign U+00B5 and of U+00FF are U+039C and U+0178, outside the range: there the
  result is no text of the embedding, and \<open>toUpperCase\<close> is \<open>None\<close>.
\<close>

definition upperChar :: "char \<Rightarrow> string option" where
  "upperChar c =
     (if c = CHR 0xB5 \<or> c = CHR 0xFF then None
      else if c = CHR 0xDF then Some ''SS''
      else (case map_of (zip (lowerLetters @ lowerLatin) (upperLetters @ upperLatin)) c of
              Some u \<Rightarrow> Some [u] | None \<Rightarrow> Some [c]))"

definition toUpperCase :: "string \<Rightarrow> string option" where
  "toUpperCase s = map_option concat (those (map upperChar s))"

text \<open>Decimal numerals: the number that a string of digits writes, and the text of an
  index.\<close>

definition digitVal :: "char \<Rightarrow> nat" where
  "digitVal c =
     (case map_of (zip ''0123456789'' [0, 1, 2, 3, 4, 5, 6, 7, 8, 9]) c of
        Some d \<Rightarrow> d | None \<Rightarrow> 0)"

definition parseDigits :: "string \<Rightarrow> nat" where
  "parseDigits ds = foldl (\<lambda>n c. 10 * n + digitVal c) 0 ds"

text \<open>
  A Number that is an integer or \<open>Infinity\<close>, and \<open>parseInt\<close> on a string of digits: the
  double next to the number written, the even one of two that are as near, and \<open>Infinity\<close>
  where that is \<open>2 ^ 1024\<close> or more. A double holds 53 binary digits; \<open>binaryExponent n\<close>
  counts the digits of \<open>n\<close> beyond them. (The standard lets an implementation read the
  digits after the 20th as zeros before it rounds; the engines round the number written.)
\<close>

datatype number = Finite int | Infinity

function binaryExponent :: "nat \<Rightarrow> nat" where
  "binaryExponent n = (if n < 2 ^ 53 then 0 else Suc (binaryExponent (n div 2)))"
  by pat_completeness auto
termination
  by (relation "measure id") auto

declare binaryExponent.simps [simp del]

definition roundToDouble :: "nat \<Rightarrow> number" where
  "roundToDouble n =
     (let e = binaryExponent n; q = n div 2 ^ e; r = n mod 2 ^ e;
          m = (if 2 ^ e < 2 * r \<or> (2 * r = 2 ^ e \<and> odd q) then q + 1 else q)
      in if m * 2 ^ e < 2 ^ 1024 then Finite (int (m * 2 ^ e)) else Infinity)"

definition parseInt :: "string \<Rightarrow> number" where
  "parseInt ds = roundToDouble (parseDigits ds)"

definition digitChar :: "nat \<Rightarrow> char" where
  "digitChar d = ''0123456789'' ! (d mod 10)"

function showNat :: "nat \<Rightarrow> string" where
  "showNat n = (if n < 10 then [digitChar n] else showNat (n div 10) @ [digitChar (n mod 10)])"
  by pat_completeness auto
termination
  by (relation "measure id") auto

declare showNat.simps [simp del]

section \<open>Regular expressions and replacement\<close>

text \<open>
  \<open>splitFirst pat s\<close> cuts \<open>s\<close> at the leftmost occurrence of \<open>pat\<close>
  (\<open>String.prototype.indexOf\<close>): the text before it and the text after it.
\<close>

fun splitFirst :: "string \<Rightarrow> string \<Rightarrow> (string \<times> string) option" where
  "splitFirst pat [] = (if pat = [] then Some ([], []) else None)"
| "splitFirst pat (c # cs) =
     (if prefix pat (c # cs) then Some ([], drop (length pat) (c # cs))
      else map_option (\<lambda>(a, b). (c # a, b)) (splitFirst pat cs))"

text \<open>
  \<open>GetSubstitution\<close> for a replacement text when the pattern has no capture group, which
  is the case at every call with a replacement text in this program: \<open>$$\<close> gives a dollar
  sign, \<open>$&\<close> the matched text, \<open>$`\<close> the text before the match and \<open>$'\<close> the text after
  it; a dollar sign before anything else stands for itself.
\<close>

fun getSubstitution :: "string \<Rightarrow> string \<Rightarrow> string \<Rightarrow> string \<Rightarrow> string" where
  "getSubstitution m pre post [] = []"
| "getSubstitution m pre post [c] = [c]"
| "getSubstitution m pre post (c # d # r) =
     (if c = CHR ''$'' \<and> d = CHR ''$'' then CHR ''$'' # getSubstitution m pre post r
      else if c = CHR ''$'' \<and> d = CHR ''&'' then m @ getSubstitution m pre post r
      else if c = CHR ''$'' \<and> d = CHR 0x60 then pre @ getSubstitution m pre post r
      else if c = CHR ''$'' \<and> d = CHR 0x27 then post @ getSubstitution m pre post r
      else c # getSubstitution m pre post (d # r))"

text \<open>\<open>s.replace(pat, rep)\<close> with a text \<open>pat\<close>: the first occurrence only.\<close>

definition replaceFirst :: "string \<Rightarrow> string \<Rightarrow> string \<Rightarrow> string" where
  "replaceFirst pat rep s =
     (case splitFirst pat s of
        None \<Rightarrow> s
      | Some (pre, post) \<Rightarrow> pre @ getSubstitution pat pre post rep @ post)"

text \<open>
  A regular expression is embedded by its matcher: the attempt to match at the start of
  the text it is given, with the length of the match and what the groups captured.
\<close>

type_synonym 'c matcher = "string \<Rightarrow> (nat \<times> 'c) option"

text \<open>
  \<open>s.replace(re, f)\<close> for a global \<open>re\<close>: the matches are looked for from left to
  right, each search starting where the last match ended (one code unit further after an
  empty match). The replacer is given the text before the match, the match, the captures
  and the text after the match; \<open>pre\<close> is the text already passed.
\<close>

function replaceAll ::
  "'c matcher \<Rightarrow> (string \<Rightarrow> string \<Rightarrow> 'c \<Rightarrow> string \<Rightarrow> string) \<Rightarrow> string \<Rightarrow> string \<Rightarrow> string" where
  "replaceAll m f pre [] = (case m [] of Some (n, c) \<Rightarrow> f pre [] c [] | None \<Rightarrow> [])"
| "replaceAll m f pre (x # xs) =
     (case m (x # xs) of
        None \<Rightarrow> x # replaceAll m f (pre @ [x]) xs
      | Some (n, c) \<Rightarrow>
          (if n = 0 then f pre [] c (x # xs) @ x # replaceAll m f (pre @ [x]) xs
           else f pre (take n (x # xs)) c (drop n (x # xs))
                @ replaceAll m f (pre @ take n (x # xs)) (drop n (x # xs))))"
  by pat_completeness auto
termination
  by (relation "measure (\<lambda>(m, f, pre, s). length s)") auto

declare replaceAll.simps [simp del]

text \<open>The matches of a global regular expression, each with its index (\<open>matchAll\<close>, and
  the \<open>while ((match = re.exec(s)) !== null)\<close> loop for an expression that cannot match the
  empty text).\<close>

function matchAll :: "'c matcher \<Rightarrow> nat \<Rightarrow> string \<Rightarrow> (nat \<times> string \<times> 'c) list" where
  "matchAll m i [] = (case m [] of Some (n, c) \<Rightarrow> [(i, [], c)] | None \<Rightarrow> [])"
| "matchAll m i (x # xs) =
     (case m (x # xs) of
        None \<Rightarrow> matchAll m (Suc i) xs
      | Some (n, c) \<Rightarrow>
          (if n = 0 then (i, [], c) # matchAll m (Suc i) xs
           else (i, take n (x # xs), c) # matchAll m (i + n) (drop n (x # xs))))"
  by pat_completeness auto
termination
  by (relation "measure (\<lambda>(m, i, s). length s)") auto

declare matchAll.simps [simp del]

text \<open>A literal pattern.\<close>

definition matchLiteral :: "string \<Rightarrow> unit matcher" where
  "matchLiteral lit s = (if prefix lit s then Some (length lit, ()) else None)"

text \<open>\<open>opn([\s\S]*?)cls\<close> for literal \<open>opn\<close> and \<open>cls\<close>: the group is the text up to the
  first \<open>cls\<close> after \<open>opn\<close>.\<close>

definition matchRegion :: "string \<Rightarrow> string \<Rightarrow> string matcher" where
  "matchRegion opn cls s =
     (if prefix opn s then
        (case splitFirst cls (drop (length opn) s) of
           None \<Rightarrow> None
         | Some (inner, rest) \<Rightarrow> Some (length opn + length inner + length cls, inner))
      else None)"

text \<open>
  \<open>{{=\s*(.+?)\s*}}\<close>. \<open>closesAt\<close> is \<open>\s*}}\<close>: a closing brace is no space, so giving
  spaces back never helps. \<open>lazyCapture\<close> is \<open>(.+?)\s*}}\<close>: the group takes one character
  that is no line terminator and then as few more as possible. \<open>tryFrom\<close> is the greedy
  \<open>\s*\<close> before the group, which gives back one space at a time when the rest fails.
\<close>

definition closesAt :: "string \<Rightarrow> nat option" where
  "closesAt s =
     (if prefix ''}}'' (dropWhile isSpace s) then Some (length (takeWhile isSpace s) + 2)
      else None)"

fun lazyCapture :: "string \<Rightarrow> (string \<times> nat) option" where
  "lazyCapture [] = None"
| "lazyCapture (c # cs) =
     (if isLineTerminator c then None
      else (case closesAt cs of
              Some k \<Rightarrow> Some ([c], Suc k)
            | None \<Rightarrow> map_option (\<lambda>(cap, n). (c # cap, Suc n)) (lazyCapture cs)))"

fun tryFrom :: "nat \<Rightarrow> string \<Rightarrow> (nat \<times> string \<times> nat) option" where
  "tryFrom 0 s = map_option (\<lambda>r. (0, r)) (lazyCapture s)"
| "tryFrom (Suc k) s =
     (case lazyCapture (drop (Suc k) s) of
        Some r \<Rightarrow> Some (Suc k, r)
      | None \<Rightarrow> tryFrom k s)"

definition matchComputed :: "string matcher" where
  "matchComputed s =
     (if prefix ''{{='' s then
        (case tryFrom (length (takeWhile isSpace (drop 3 s))) (drop 3 s) of
           None \<Rightarrow> None
         | Some (k, cap, n) \<Rightarrow> Some (3 + k + n, cap))
      else None)"

section \<open>The variable template engine (useVariables.ts)\<close>

datatype var_type = TText | TNumber | TDate | TBoolean | TList

record Variable =
  var_name :: string
  var_value :: string
  var_type :: var_type

text \<open>
  What a call does: it returns, it throws, or it leaves the part of ECMAScript this
  embedding covers.
\<close>

datatype js_error = SyntaxError | TypeError

datatype 'a outcome = Returned 'a | Thrown js_error | Unmodelled

fun andThen :: "'a outcome \<Rightarrow> ('a \<Rightarrow> 'b outcome) \<Rightarrow> 'b outcome" where
  "andThen (Returned a) k = k a"
| "andThen (Thrown e) k = Thrown e"
| "andThen Unmodelled k = Unmodelled"

fun foldOutcome :: "('a \<Rightarrow> string \<Rightarrow> string outcome) \<Rightarrow> 'a list \<Rightarrow> string \<Rightarrow> string outcome" where
  "foldOutcome f [] s = Returned s"
| "foldOutcome f (x # xs) s = andThen (f x s) (foldOutcome f xs)"

fun mapOutcome :: "('a \<Rightarrow> 'b outcome) \<Rightarrow> 'a list \<Rightarrow> 'b list outcome" where
  "mapOutcome f [] = Returned []"
| "mapOutcome f (x # xs) =
     andThen (f x) (\<lambda>y. andThen (mapOutcome f xs) (\<lambda>ys. Returned (y # ys)))"

text \<open>\<open>s.replace(re, f)\<close> for a global \<open>re\<close> and a replacer that may throw.\<close>

function replaceAllO ::
  "'c matcher \<Rightarrow> (string \<Rightarrow> string \<Rightarrow> 'c \<Rightarrow> string \<Rightarrow> string outcome) \<Rightarrow> string \<Rightarrow> string
   \<Rightarrow> string outcome" where
  "replaceAllO m f pre [] = (case m [] of Some (n, c) \<Rightarrow> f pre [] c [] | None \<Rightarrow> Returned [])"
| "replaceAllO m f pre (x # xs) =
     (case m (x # xs) of
        None \<Rightarrow> andThen (replaceAllO m f (pre @ [x]) xs) (\<lambda>r. Returned (x # r))
      | Some (n, c) \<Rightarrow>
          (if n = 0 then
             andThen (f pre [] c (x # xs))
               (\<lambda>a. andThen (replaceAllO m f (pre @ [x]) xs) (\<lambda>r. Returned (a @ x # r)))
           else
             andThen (f pre (take n (x # xs)) c (drop n (x # xs)))
               (\<lambda>a. andThen (replaceAllO m f (pre @ take n (x # xs)) (drop n (x # xs)))
                  (\<lambda>r. Returned (a @ r)))))"
  by pat_completeness auto
termination
  by (relation "measure (\<lambda>(m, f, pre, s). length s)") auto

declare replaceAllO.simps [simp del]

text \<open>
  \<open>new RegExp(source, 'g')\<close> for a source built around a name. The characters
  \<open>^ $ \ . * + ? ( ) [ ] { } |\<close> are syntax; a name without them stands for itself. In
  \<open>{{name}}\<close> the second brace opens a quantifier when the name reads \<open>n\<close>, \<open>n,\<close> or
  \<open>n,m\<close>. A name with an opening parenthesis and no closing one, no backslash and no
  bracket leaves a group open, and the constructor throws a SyntaxError. Other names are
  not covered.
\<close>

definition isSyntaxChar :: "char \<Rightarrow> bool" where
  "isSyntaxChar c = (c \<in> set (CHR 0x5C # ''^$.*+?()[]{}|''))"

definition plainName :: "string \<Rightarrow> bool" where
  "plainName n = list_all (\<lambda>c. \<not> isSyntaxChar c) n"

definition quantifierLike :: "string \<Rightarrow> bool" where
  "quantifierLike n =
     (takeWhile isDigit n \<noteq> [] \<and>
      (case dropWhile isDigit n of
         [] \<Rightarrow> True
       | c # r \<Rightarrow> c = CHR '','' \<and> list_all isDigit r))"

definition unterminatedGroup :: "string \<Rightarrow> bool" where
  "unterminatedGroup n =
     (CHR ''('' \<in> set n \<and> CHR '')'' \<notin> set n \<and> CHR 0x5C \<notin> set n \<and> CHR ''['' \<notin> set n)"

datatype regex_source = Literal | Invalid | Unsupported

definition nameSource :: "string \<Rightarrow> regex_source" where
  "nameSource n =
     (if plainName n then Literal else if unterminatedGroup n then Invalid else Unsupported)"

definition bareSource :: "string \<Rightarrow> regex_source" where
  "bareSource n =
     (if plainName n \<and> \<not> quantifierLike n then Literal
      else if unterminatedGroup n then Invalid else Unsupported)"

text \<open>Pass 1: \<open>processed.replace(new RegExp(`{{${variable.name}}}`, 'g'), variable.value)\<close>.\<close>

definition replaceReferences :: "string \<Rightarrow> string \<Rightarrow> string \<Rightarrow> string" where
  "replaceReferences key rep s =
     replaceAll (matchLiteral (''{{'' @ key @ ''}}''))
       (\<lambda>pre m c post. getSubstitution m pre post rep) [] s"

definition substituteText :: "string \<Rightarrow> string \<Rightarrow> string \<Rightarrow> string outcome" where
  "substituteText key rep s =
     (case bareSource key of
        Literal \<Rightarrow> Returned (replaceReferences key rep s)
      | Invalid \<Rightarrow> Thrown SyntaxError
      | Unsupported \<Rightarrow> Unmodelled)"

definition substituteVariable :: "Variable \<Rightarrow> string \<Rightarrow> string outcome" where
  "substituteVariable v s = substituteText (var_name v) (var_value v) s"

text \<open>
  Pass 2. What \<open>JSON.parse\<close> returns: a number is kept as the text \<open>String\<close> gives for
  it, an object as its own properties in the order of \<open>Object.keys\<close>. \<open>JSON.parse\<close>
  itself is a parameter \<open>jp\<close> of the engine, \<open>None\<close> where it throws.
\<close>

datatype json =
  JNull | JBool bool | JNumber string | JString string | JArray "json list"
| JObject "(string \<times> json) list"

fun ToString :: "json \<Rightarrow> string" where
  "ToString JNull = ''null''"
| "ToString (JBool b) = (if b then ''true'' else ''false'')"
| "ToString (JNumber n) = n"
| "ToString (JString s) = s"
| "ToString (JArray xs) = joinWith '','' (map (\<lambda>x. if x = JNull then [] else ToString x) xs)"
| "ToString (JObject kvs) = ''[object Object]''"

text \<open>\<open>Object.keys(item)\<close> with \<open>item[key]\<close>; \<open>Object.keys(null)\<close> throws.\<close>

fun ownEntries :: "json \<Rightarrow> (string \<times> json) list outcome" where
  "ownEntries JNull = Thrown TypeError"
| "ownEntries (JBool b) = Returned []"
| "ownEntries (JNumber n) = Returned []"
| "ownEntries (JString s) =
     Returned (zip (map showNat [0..<length s]) (map (\<lambda>c. JString [c]) s))"
| "ownEntries (JArray xs) = Returned (zip (map showNat [0..<length xs]) xs)"
| "ownEntries (JObject kvs) = Returned kvs"

definition itemStep :: "string \<times> json \<Rightarrow> string \<Rightarrow> string outcome" where
  "itemStep kv s = substituteText (fst kv) (ToString (snd kv)) s"

definition expandItem :: "string \<Rightarrow> json \<Rightarrow> string outcome" where
  "expandItem template item =
     andThen (ownEntries item)
       (\<lambda>es. andThen (foldOutcome itemStep es template) (\<lambda>t. Returned (trim t)))"

definition expandList :: "json list \<Rightarrow> string \<Rightarrow> string outcome" where
  "expandList listData template =
     andThen (mapOutcome (expandItem template) listData)
       (\<lambda>parts. Returned (joinWith [CHR 0x0A] parts))"

definition listStep :: "(string \<Rightarrow> json option) \<Rightarrow> Variable \<Rightarrow> string \<Rightarrow> string outcome" where
  "listStep jp v s =
     (case jp (var_value v) of
        None \<Rightarrow> Returned s
      | Some (JArray listData) \<Rightarrow>
          (case nameSource (var_name v) of
             Invalid \<Rightarrow> Returned s
           | Unsupported \<Rightarrow> Unmodelled
           | Literal \<Rightarrow>
               (case replaceAllO
                       (matchRegion (''{{#'' @ var_name v @ ''}}'') (''{{/'' @ var_name v @ ''}}''))
                       (\<lambda>pre m template post. expandList listData template) [] s of
                  Thrown e \<Rightarrow> Returned s
                | r \<Rightarrow> r))
      | Some other \<Rightarrow> Returned s)"

text \<open>Passes 3 and 4.\<close>

definition truthy :: "string \<Rightarrow> bool" where
  "truthy val = (val \<noteq> [] \<and> val \<noteq> ''false'' \<and> val \<noteq> ''0'')"

definition replaceRegions :: "string \<Rightarrow> string \<Rightarrow> bool \<Rightarrow> string \<Rightarrow> string" where
  "replaceRegions opn cls keep s =
     replaceAll (matchRegion opn cls) (\<lambda>pre m content post. if keep then content else []) [] s"

definition regionStep :: "string \<Rightarrow> string \<Rightarrow> string \<Rightarrow> bool \<Rightarrow> string \<Rightarrow> string outcome" where
  "regionStep opn n cls keep s =
     (case nameSource n of
        Literal \<Rightarrow> Returned (replaceRegions (opn @ n @ ''}}'') cls keep s)
      | Invalid \<Rightarrow> Thrown SyntaxError
      | Unsupported \<Rightarrow> Unmodelled)"

definition ifStep :: "Variable \<Rightarrow> string \<Rightarrow> string outcome" where
  "ifStep v s = regionStep ''{{#if '' (var_name v) ''{{/if}}'' (truthy (var_value v)) s"

definition unlessStep :: "Variable \<Rightarrow> string \<Rightarrow> string outcome" where
  "unlessStep v s =
     regionStep ''{{#unless '' (var_name v) ''{{/unless}}'' (\<not> truthy (var_value v)) s"

text \<open>
  Pass 5. The expression is evaluated by \<open>new Function\<close> on the sanitised text, in the
  context built from the variables; that evaluator is the parameter \<open>ev\<close>, \<open>None\<close> where
  building or calling the function throws. A number is handed over as the text given to
  \<open>parseFloat\<close>.
\<close>

datatype ctx_value = CNumber string | CBoolean bool | CString string

definition contextOf :: "Variable list \<Rightarrow> (string \<times> ctx_value) list" where
  "contextOf vars =
     map (\<lambda>v. (var_name v,
                if var_type v = TNumber then CNumber (var_value v)
                else if var_type v = TBoolean then CBoolean (var_value v = ''true'')
                else CString (var_value v))) vars"

definition isSafeChar :: "char \<Rightarrow> bool" where
  "isSafeChar c =
     (c \<in> set (lowerLetters @ upperLetters @ ''0123456789_+-*/().'') \<or> isSpace c)"

definition safeExpression :: "string \<Rightarrow> string" where
  "safeExpression e = filter isSafeChar e"

definition evalComputed ::
  "((string \<times> ctx_value) list \<Rightarrow> string \<Rightarrow> string option) \<Rightarrow> Variable list \<Rightarrow> string \<Rightarrow> string
   \<Rightarrow> string" where
  "evalComputed ev vars m expression =
     (case ev (contextOf vars) (safeExpression expression) of Some r \<Rightarrow> r | None \<Rightarrow> m)"

definition computedPass ::
  "((string \<times> ctx_value) list \<Rightarrow> string \<Rightarrow> string option) \<Rightarrow> Variable list \<Rightarrow> string \<Rightarrow> string" where
  "computedPass ev vars s =
     replaceAll matchComputed (\<lambda>pre m expression post. evalComputed ev vars m expression) [] s"

definition processTemplate ::
  "(string \<Rightarrow> json option) \<Rightarrow> ((string \<times> ctx_value) list \<Rightarrow> string \<Rightarrow> string option)
   \<Rightarrow> string \<Rightarrow> Variable list \<Rightarrow> string outcome" where
  "processTemplate jp ev content vars =
     andThen (foldOutcome substituteVariable vars content)
       (\<lambda>p1. andThen (foldOutcome (listStep jp) (filter (\<lambda>v. var_type v = TList) vars) p1)
       (\<lambda>p2. andThen (foldOutcome ifStep vars p2)
       (\<lambda>p3. andThen (foldOutcome unlessStep vars p3)
       (\<lambda>p4. Returned (computedPass ev vars p4)))))"

section \<open>The component scanner and the placeholder rewriter (useSmartComponents.tsx)\<close>

text \<open>
  What a component is rendered from. A chart keeps each value as the text given to
  \<open>parseFloat\<close>, a progress bar holds the Number that \<open>parseInt\<close> returns; the React keys
  are left out.
\<close>

record Stat =
  title :: string
  stat_value :: string
  change :: "string option"
  icon :: "string option"

datatype component =
  BarChart "(string \<times> string) list"
| PieChart "(string \<times> string) list"
| Timeline "string list"
| ProgressBar number "string option"
| TaskList "string list"
| Alert string string
| StatsCards "Stat list"

record SmartComponentMatch =
  comp_type :: string
  startIndex :: nat
  endIndex :: nat
  content :: string
  component :: component

definition mkMatch :: "string \<Rightarrow> nat \<Rightarrow> string \<Rightarrow> component \<Rightarrow> SmartComponentMatch" where
  "mkMatch ty i whole c =
     \<lparr>comp_type = ty, startIndex = i, endIndex = i + length whole, content = whole,
      component = c\<rparr>"

definition fence :: string where
  "fence = [CHR 0x60, CHR 0x60, CHR 0x60]"

text \<open>\<open>```chart\n([\s\S]*?)```\<close>\<close>

definition chartRegex :: "string matcher" where
  "chartRegex = matchRegion (fence @ ''chart'' @ [CHR 0x0A]) fence"

definition chartRow :: "string \<Rightarrow> (string \<times> string) option" where
  "chartRow line =
     (case map trim (splitOn CHR '':'' line) of
        l # v # r \<Rightarrow> (if l \<noteq> [] \<and> v \<noteq> [] then Some (l, v) else None)
      | other \<Rightarrow> None)"

definition chartType :: "string \<Rightarrow> string" where
  "chartType body = (case splitOn (CHR 0x0A) (trim body) of [] \<Rightarrow> [] | l # ls \<Rightarrow> toLowerCase l)"

definition isChartType :: "string \<Rightarrow> bool" where
  "isChartType ty = (ty = ''bar'' \<or> ty = ''line'' \<or> ty = ''pie'' \<or> ty = ''donut'')"

definition chartComponent :: "nat \<times> string \<times> string \<Rightarrow> SmartComponentMatch option" where
  "chartComponent mt =
     (case mt of (i, whole, body) \<Rightarrow>
        (if isChartType (chartType body) then
           Some (mkMatch ''chart'' i whole
             ((if chartType body = ''bar'' \<or> chartType body = ''line'' then BarChart else PieChart)
                (List.map_filter chartRow (tl (splitOn (CHR 0x0A) (trim body))))))
         else None))"

definition parseCharts :: "string \<Rightarrow> SmartComponentMatch list" where
  "parseCharts markdown = List.map_filter chartComponent (matchAll chartRegex 0 markdown)"

text \<open>\<open>```timeline\n([\s\S]*?)```\<close>, and \<open>```tasks?\n([\s\S]*?)```\<close>: the optional
  letter is tried first, and the two openings exclude each other.\<close>

definition timelineRegex :: "string matcher" where
  "timelineRegex = matchRegion (fence @ ''timeline'' @ [CHR 0x0A]) fence"

definition matchFenceOpt :: "string \<Rightarrow> string matcher" where
  "matchFenceOpt w s =
     (case matchRegion (fence @ w @ ''s'' @ [CHR 0x0A]) fence s of
        Some r \<Rightarrow> Some r
      | None \<Rightarrow> matchRegion (fence @ w @ [CHR 0x0A]) fence s)"

definition nonBlankLines :: "string \<Rightarrow> string list" where
  "nonBlankLines body = filter (\<lambda>line. trim line \<noteq> []) (splitOn (CHR 0x0A) (trim body))"

definition parseTimelines :: "string \<Rightarrow> SmartComponentMatch list" where
  "parseTimelines markdown =
     map (\<lambda>(i, whole, body). mkMatch ''timeline'' i whole (Timeline (nonBlankLines body)))
       (matchAll timelineRegex 0 markdown)"

definition parseTasks :: "string \<Rightarrow> SmartComponentMatch list" where
  "parseTasks markdown =
     map (\<lambda>(i, whole, body). mkMatch ''tasks'' i whole (TaskList (nonBlankLines body)))
       (matchAll (matchFenceOpt ''task'') 0 markdown)"

text \<open>
  \<open>\[progress:(\d+)(?::(.+?))?\]\<close>. The digits are all the digits there are: with fewer,
  the next character is a digit and neither a colon nor a bracket. \<open>lazyLabel\<close> is
  \<open>(.+?)\]\<close>; when the optional group fails, the bracket is looked for where the colon
  stands, and fails too.
\<close>

fun lazyLabel :: "string \<Rightarrow> (string \<times> nat) option" where
  "lazyLabel [] = None"
| "lazyLabel (c # cs) =
     (if isLineTerminator c then None
      else (case cs of
              [] \<Rightarrow> None
            | d # r \<Rightarrow>
                (if d = CHR '']'' then Some ([c], 2)
                 else map_option (\<lambda>(l, n). (c # l, Suc n)) (lazyLabel cs))))"

definition progressRegex :: "(string \<times> string option) matcher" where
  "progressRegex s =
     (if prefix ''[progress:'' s then
        (let ds = takeWhile isDigit (drop 10 s); r = dropWhile isDigit (drop 10 s) in
         if ds = [] then None
         else (case r of
                 [] \<Rightarrow> None
               | c # r' \<Rightarrow>
                   (if c = CHR '':'' then
                      (case lazyLabel r' of
                         None \<Rightarrow> None
                       | Some (l, n) \<Rightarrow> Some (10 + length ds + 1 + n, (ds, Some l)))
                    else if c = CHR '']'' then Some (10 + length ds + 1, (ds, None))
                    else None)))
      else None)"

definition progressComponent :: "nat \<times> string \<times> string \<times> string option \<Rightarrow> SmartComponentMatch" where
  "progressComponent mt =
     (case mt of (i, whole, ds, label) \<Rightarrow>
        mkMatch ''progress'' i whole (ProgressBar (parseInt ds) label))"

definition parseProgress :: "string \<Rightarrow> SmartComponentMatch list" where
  "parseProgress markdown = map progressComponent (matchAll progressRegex 0 markdown)"

text \<open>\<open>:::(info|warning|error|success|tip)\n([\s\S]*?):::\<close>\<close>

definition alertTypes :: "string list" where
  "alertTypes = [''info'', ''warning'', ''error'', ''success'', ''tip'']"

definition alertRegex :: "(string \<times> string) matcher" where
  "alertRegex s =
     (if prefix '':::'' s then
        (case find (\<lambda>k. prefix (k @ [CHR 0x0A]) (drop 3 s)) alertTypes of
           None \<Rightarrow> None
         | Some k \<Rightarrow>
             (case splitFirst '':::'' (drop (3 + length k + 1) s) of
                None \<Rightarrow> None
              | Some (inner, rest) \<Rightarrow> Some (3 + length k + 1 + length inner + 3, (k, inner))))
      else None)"

definition parseAlerts :: "string \<Rightarrow> SmartComponentMatch list" where
  "parseAlerts markdown =
     map (\<lambda>(i, whole, ty, body). mkMatch ''alert'' i whole (Alert ty (trim body)))
       (matchAll alertRegex 0 markdown)"

text \<open>\<open>```stats?\n([\s\S]*?)```\<close>\<close>

definition nthOpt :: "'a list \<Rightarrow> nat \<Rightarrow> 'a option" where
  "nthOpt xs i = (if i < length xs then Some (xs ! i) else None)"

definition statOf :: "string \<Rightarrow> Stat" where
  "statOf line =
     (let parts = map trim (splitOn CHR ''|'' line) in
      \<lparr>title = (case nthOpt parts 0 of Some t \<Rightarrow> t | None \<Rightarrow> []),
       stat_value = (case nthOpt parts 1 of Some t \<Rightarrow> t | None \<Rightarrow> []),
       change = nthOpt parts 2,
       icon = nthOpt parts 3\<rparr>)"

definition parseStats :: "string \<Rightarrow> SmartComponentMatch list" where
  "parseStats markdown =
     map (\<lambda>(i, whole, body).
            mkMatch ''stats'' i whole (StatsCards (map statOf (splitOn (CHR 0x0A) (trim body)))))
       (matchAll (matchFenceOpt ''stat'') 0 markdown)"

text \<open>The scan: every kind over the whole text, then a stable sort by start index.\<close>

definition smartComponents :: "string \<Rightarrow> SmartComponentMatch list" where
  "smartComponents markdown =
     sort_key startIndex
       (parseCharts markdown @ parseTimelines markdown @ parseProgress markdown
        @ parseTasks markdown @ parseAlerts markdown @ parseStats markdown)"

text \<open>The rewrite: the first occurrence of each component's text becomes its marker.\<close>

definition placeholder :: "nat \<Rightarrow> string" where
  "placeholder index = ''<!--SMART_COMPONENT_'' @ showNat index @ ''-->''"

definition transformWith :: "SmartComponentMatch list \<Rightarrow> string \<Rightarrow> string" where
  "transformWith comps md =
     fold (\<lambda>(index, comp) t. replaceFirst (content comp) (placeholder index) t)
       (enumerate 0 comps) md"

definition transformMarkdown :: "string \<Rightarrow> string" where
  "transformMarkdown markdown = transformWith (smartComponents markdown) markdown"

definition componentMap :: "string \<Rightarrow> (string \<times> component) list" where
  "componentMap markdown =
     map (\<lambda>(index, comp). (placeholder index, component comp))
       (enumerate 0 (smartComponents markdown))"

definition markerKeys :: "string \<Rightarrow> string list" where
  "markerKeys markdown = map fst (componentMap markdown)"





section \<open>The image resolver (utils/imageHandler, and handleImageUpload of the App)\<close>

record File =
  file_name :: string
  file_size :: nat
  file_type :: string

definition MAX_FILE_SIZE :: nat where
  "MAX_FILE_SIZE = 5 * 1024 * 1024"

text \<open>What a promise is rejected with: an \<open>Error\<close> with its message, or the event of a
  failed read, which has no message.\<close>

datatype rejection = Error string | ProgressEvent

text \<open>
  \<open>FileReader.readAsDataURL\<close> is the parameter \<open>rd\<close> (\<open>None\<close> where the read fails), and
  \<open>compressImage\<close>, which decodes, scales and re-encodes on a canvas, the parameter \<open>cmp\<close>.
\<close>

definition convertImageToBase64 :: "(File \<Rightarrow> string option) \<Rightarrow> File \<Rightarrow> rejection + string" where
  "convertImageToBase64 rd file =
     (if file_size file > MAX_FILE_SIZE then
        Inl (Error (''File '' @ file_name file @ '' is too large. Max size is 5MB.''))
      else (case rd file of None \<Rightarrow> Inl ProgressEvent | Some base64 \<Rightarrow> Inr base64))"

text \<open>The first match of a regular expression that is not global: the text before it, the
  match, the captures and the text after it.\<close>

fun searchFirst :: "'c matcher \<Rightarrow> string \<Rightarrow> (string \<times> string \<times> 'c \<times> string) option" where
  "searchFirst m [] = (case m [] of Some (n, c) \<Rightarrow> Some ([], [], c, []) | None \<Rightarrow> None)"
| "searchFirst m (x # xs) =
     (case m (x # xs) of
        Some (n, c) \<Rightarrow> Some ([], take n (x # xs), c, drop n (x # xs))
      | None \<Rightarrow> map_option (\<lambda>(pre, r). (x # pre, r)) (searchFirst m xs))"

text \<open>\<open>\.[^/.]+$\<close>\<close>

definition extensionRegex :: "unit matcher" where
  "extensionRegex s =
     (case s of
        [] \<Rightarrow> None
      | c # r \<Rightarrow>
          (if c = CHR ''.'' \<and> r \<noteq> [] \<and> list_all (\<lambda>d. d \<noteq> CHR ''/'' \<and> d \<noteq> CHR ''.'') r
           then Some (length s, ()) else None))"

definition nameWithoutExt :: "string \<Rightarrow> string" where
  "nameWithoutExt filename =
     (case searchFirst extensionRegex filename of
        None \<Rightarrow> filename
      | Some (pre, m, c, post) \<Rightarrow> pre @ post)"

definition ext :: "string \<Rightarrow> string" where
  "ext filename =
     (case searchFirst extensionRegex filename of
        None \<Rightarrow> []
      | Some (pre, m, c, post) \<Rightarrow> m)"

text \<open>
  The variants of a name. Where the upper-case form of the extension has a code unit above
  255, the last variant of the source is a key that no text of the embedding is equal to,
  and the list is without it.
\<close>

definition generatePathVariations :: "string \<Rightarrow> string list" where
  "generatePathVariations filename =
     [filename, ''./'' @ filename,
      ''images/'' @ filename, ''./images/'' @ filename,
      ''assets/'' @ filename, ''./assets/'' @ filename,
      ''img/'' @ filename, ''./img/'' @ filename,
      ''pics/'' @ filename, ''./pics/'' @ filename,
      ''media/'' @ filename, ''./media/'' @ filename]
     @ (if ext filename \<noteq> [] then
          [nameWithoutExt filename @ toLowerCase (ext filename)]
          @ (case toUpperCase (ext filename) of
               Some u \<Rightarrow> [nameWithoutExt filename @ u]
             | None \<Rightarrow> [])
        else [])"

text \<open>The upload loop of \<open>handleImageUpload\<close>: what one file does to the new image map,
  the added names, the error toasts and the two size counters.\<close>

record UploadState =
  imageMap :: "string \<Rightarrow> string option"
  addedImages :: "string list"
  toasts :: "string list"
  totalOriginalSize :: nat
  totalCompressedSize :: nat

definition toastText :: "rejection \<Rightarrow> File \<Rightarrow> string" where
  "toastText e file =
     (case e of
        Error message \<Rightarrow> (if message = [] then ''Failed to load: '' @ file_name file else message)
      | ProgressEvent \<Rightarrow> ''Failed to load: '' @ file_name file)"

definition uploadFile ::
  "(File \<Rightarrow> rejection + File) \<Rightarrow> (File \<Rightarrow> string option) \<Rightarrow> File \<Rightarrow> UploadState \<Rightarrow> UploadState" where
  "uploadFile cmp rd file st =
     (if prefix ''image/'' (file_type file) then
        (let st1 = st\<lparr>totalOriginalSize := totalOriginalSize st + file_size file\<rparr> in
         case (if file_size file > 100 * 1024 then cmp file else Inr file) of
           Inl e \<Rightarrow> st1\<lparr>toasts := toasts st1 @ [toastText e file]\<rparr>
         | Inr processedFile \<Rightarrow>
             (let st2 = st1\<lparr>totalCompressedSize :=
                               totalCompressedSize st1 + file_size processedFile\<rparr> in
              case convertImageToBase64 rd processedFile of
                Inl e \<Rightarrow> st2\<lparr>toasts := toasts st2 @ [toastText e file]\<rparr>
              | Inr base64 \<Rightarrow>
                  st2\<lparr>imageMap := fold (\<lambda>path m. m(path \<mapsto> base64))
                                      (generatePathVariations (file_name file)) (imageMap st2),
                      addedImages := addedImages st2 @ [file_name file]\<rparr>))
      else st)"

definition uploadLoop ::
  "(File \<Rightarrow> rejection + File) \<Rightarrow> (File \<Rightarrow> string option) \<Rightarrow> File list \<Rightarrow> UploadState \<Rightarrow> UploadState" where
  "uploadLoop cmp rd files st = fold (uploadFile cmp rd) files st"

definition handleImageUpload ::
  "(File \<Rightarrow> rejection + File) \<Rightarrow> (File \<Rightarrow> string option) \<Rightarrow> (string \<Rightarrow> string option) \<Rightarrow> File list
   \<Rightarrow> UploadState" where
  "handleImageUpload cmp rd current files =
     (let st = \<lparr>imageMap = current, addedImages = [], toasts = [],
                totalOriginalSize = 0, totalCompressedSize = 0\<rparr> in
      if files = [] then st
      else if length files > 20 then
        st\<lparr>toasts := [''Please select 20 or fewer images at a time'']\<rparr>
      else uploadLoop cmp rd files st)"

text \<open>
  \<open>!\[([^\]]*)\]\(([^)]+)\)\<close> and \<open>!\[\[([^\]|]+)(?:\|([^\]]+))?\]\]\<close>. Each class is
  followed by a character outside it, so a greedy run that gives characters back cannot
  match what follows.
\<close>

definition standardImageRegex :: "(string \<times> string) matcher" where
  "standardImageRegex s =
     (if prefix ''!['' s then
        (let alt = takeWhile (\<lambda>c. c \<noteq> CHR '']'') (drop 2 s);
             r = dropWhile (\<lambda>c. c \<noteq> CHR '']'') (drop 2 s) in
         if prefix ''](''  r then
           (let path = takeWhile (\<lambda>c. c \<noteq> CHR '')'') (drop 2 r);
                r' = dropWhile (\<lambda>c. c \<noteq> CHR '')'') (drop 2 r) in
            if path \<noteq> [] \<and> r' \<noteq> [] then Some (2 + length alt + 2 + length path + 1, (alt, path))
            else None)
         else None)
      else None)"

definition obsidianImageRegex :: "(string \<times> string option) matcher" where
  "obsidianImageRegex s =
     (if prefix ''![['' s then
        (let path = takeWhile (\<lambda>c. c \<noteq> CHR '']'' \<and> c \<noteq> CHR ''|'') (drop 3 s);
             r = dropWhile (\<lambda>c. c \<noteq> CHR '']'' \<and> c \<noteq> CHR ''|'') (drop 3 s) in
         if path = [] then None
         else if prefix '']]'' r then Some (3 + length path + 2, (path, None))
         else if prefix ''|'' r then
           (let w = takeWhile (\<lambda>c. c \<noteq> CHR '']'') (drop 1 r);
                r' = dropWhile (\<lambda>c. c \<noteq> CHR '']'') (drop 1 r) in
            if w \<noteq> [] \<and> prefix '']]'' r' then Some (3 + length path + 1 + length w + 2, (path, Some w))
            else None)
         else None)
      else None)"

definition processMarkdownImages :: "string \<Rightarrow> (string \<Rightarrow> string option) \<Rightarrow> string" where
  "processMarkdownImages markdown images =
     (let standard =
            fold (\<lambda>(i, fullMatch, altText, imagePath) processed.
                    (case images imagePath of
                       None \<Rightarrow> processed
                     | Some base64Data \<Rightarrow>
                         (if base64Data = [] then processed
                          else replaceFirst fullMatch
                                 (''!['' @ altText @ '']('' @ base64Data @ '')'') processed)))
              (matchAll standardImageRegex 0 markdown) markdown
      in fold (\<lambda>(i, fullMatch, imagePath, width) processed.
                 (case images imagePath of
                    None \<Rightarrow> processed
                  | Some base64Data \<Rightarrow>
                      (if base64Data = [] then processed
                       else replaceFirst fullMatch
                              (''!['' @ imagePath @ '']('' @ base64Data @ '')'') processed)))
           (matchAll obsidianImageRegex 0 standard) standard)"

text \<open>The characters of a data URL as \<open>readAsDataURL\<close> writes one:
  \<open>data:type/subtype;base64,payload\<close>.\<close>

definition dataUrlChar :: "char \<Rightarrow> bool" where
  "dataUrlChar c = (c \<in> set (lowerLetters @ upperLetters @ ''0123456789+/=:;,-.''))"

section \<open>The spec's words\<close>

text \<open>
  "No remaining \<open>{{...}}\<close> markers", for the comparison with the code: the text holds no
  \<open>{{\<close> with a \<open>}}\<close> after it.
\<close>

definition hasMarker :: "string \<Rightarrow> bool" where
  "hasMarker s = (case splitFirst ''{{'' s of None \<Rightarrow> False | Some (a, r) \<Rightarrow> sublist ''}}'' r)"

section \<open>Inputs of the examples\<close>

text \<open>
  A \<open>JSON.parse\<close> and an evaluator that throw on whatever they are given, for the examples
  with no list value and no expression that evaluates; and \<open>JSON.parse\<close> at the text of the
  two records of the list example.
\<close>

definition noParse :: "string \<Rightarrow> json option" where
  "noParse s = None"

definition noEval :: "(string \<times> ctx_value) list \<Rightarrow> string \<Rightarrow> string option" where
  "noEval ctx e = None"

definition itemsText :: string where
  \<open>itemsText = ''[{"label":"A"},{"label":"B"}]''\<close>

definition itemsJson :: json where
  "itemsJson = JArray [JObject [(''label'', JString ''A'')], JObject [(''label'', JString ''B'')]]"

definition parseItems :: "string \<Rightarrow> json option" where
  "parseItems s = (if s = itemsText then Some itemsJson else None)"

definition itemsBody :: string where
  "itemsBody = ''{{#items}}-{{label}}'' @ [CHR 0x0A] @ ''{{/items}}''"

text \<open>Variables.\<close>

definition flagVar :: Variable where
  "flagVar = \<lparr>var_name = ''flag'', var_value = ''false'', var_type = TBoolean\<rparr>"

definition cityVar :: Variable where
  "cityVar = \<lparr>var_name = ''city'', var_value = ''Paris'', var_type = TText\<rparr>"

definition openParenVar :: Variable where
  "openParenVar = \<lparr>var_name = ''('', var_value = ''false'', var_type = TBoolean\<rparr>"

text \<open>A document with an alert before a progress marker.\<close>

definition alertProgress :: string where
  "alertProgress = '':::info'' @ [CHR 0x0A] @ ''hi'' @ [CHR 0x0A] @ '':::[progress:5]''"






text \<open>Uploads; \<open>shrink\<close> and \<open>keepSize\<close> stand for the compression step, \<open>readerOk\<close> for a
  read that succeeds.\<close>

definition smallPng :: File where
  "smallPng = \<lparr>file_name = ''diagram.PNG'', file_size = 2048, file_type = ''image/png''\<rparr>"

definition lowerPng :: File where
  "lowerPng = \<lparr>file_name = ''diagram.png'', file_size = 2048, file_type = ''image/png''\<rparr>"

definition bigPhoto :: File where
  "bigPhoto = \<lparr>file_name = ''photo.png'', file_size = 6291456, file_type = ''image/png''\<rparr>"

definition bigPdf :: File where
  "bigPdf = \<lparr>file_name = ''scan.pdf'', file_size = 6291456, file_type = ''application/pdf''\<rparr>"

definition shrink :: "File \<Rightarrow> rejection + File" where
  "shrink f = Inr (f\<lparr>file_size := 307200, file_type := ''image/jpeg''\<rparr>)"

definition keepSize :: "File \<Rightarrow> rejection + File" where
  "keepSize f = Inr f"

definition readerOk :: "File \<Rightarrow> string option" where
  "readerOk f = Some ''data:image/jpeg;base64,AAAA''"

section \<open>Properties of texts\<close>

lemma splitFirst_Some: "splitFirst p s = Some (a, r) \<Longrightarrow> s = a @ p @ r"
proof (induction s arbitrary: a)
  case Nil
  then show ?case by (auto split: if_splits)
next
  case (Cons x xs)
  show ?case
  proof (cases "prefix p (x # xs)")
    case True
    with Cons.prems show ?thesis by (auto simp: prefix_def)
  next
    case False
    with Cons.prems obtain a' where "splitFirst p xs = Some (a', r)" "a = x # a'" by auto
    with Cons.IH show ?thesis by auto
  qed
qed

lemma splitFirst_first:
  "s = a' @ p @ r' \<Longrightarrow> \<exists>a r. splitFirst p s = Some (a, r) \<and> suffix r' r"
proof (induction s arbitrary: a')
  case Nil
  then show ?case by simp
next
  case (Cons x xs)
  show ?case
  proof (cases "prefix p (x # xs)")
    case True
    have "suffix r' (drop (length p) (x # xs))"
      unfolding Cons.prems by (simp add: suffix_def)
    with True show ?thesis by simp
  next
    case False
    with Cons.prems obtain a'' where "a' = x # a''" "xs = a'' @ p @ r'"
      by (cases a') auto
    from Cons.IH [OF this(2)] False show ?thesis by auto
  qed
qed

lemma splitFirst_None: "splitFirst p s = None \<Longrightarrow> \<not> sublist p s"
proof
  assume n: "splitFirst p s = None" and "sublist p s"
  then obtain a r where "s = a @ p @ r" by (auto simp: sublist_def)
  from splitFirst_first [OF this] n show False by auto
qed


section \<open>Properties of the progress marker\<close>








lemma binaryExponent_small: "n < 2 ^ 53 \<Longrightarrow> binaryExponent n = 0"
  by (simp add: binaryExponent.simps)

lemma roundToDouble_small: "n < 2 ^ 53 \<Longrightarrow> roundToDouble n = Finite (int n)"
proof -
  assume n: "n < 2 ^ 53"
  have "(2::nat) ^ 53 < 2 ^ 1024" by simp
  with n have "n < 2 ^ 1024" by (rule less_trans)
  with n show ?thesis by (simp add: roundToDouble_def binaryExponent_small)
qed





lemma parseInt_small: "parseDigits ds < 2 ^ 53 \<Longrightarrow> parseInt ds = Finite (int (parseDigits ds))"
  by (simp add: parseInt_def roundToDouble_small)



section \<open>Properties of the image index\<close>

lemma getSubstitution_plain: "CHR ''$'' \<notin> set r \<Longrightarrow> getSubstitution m pre post r = r"
  by (induction m pre post r rule: getSubstitution.induct) auto

lemma fold_update:
  "fold (\<lambda>path m. m(path \<mapsto> v)) ps m0 = (\<lambda>p. if p \<in> set ps then Some v else m0 p)"
  by (induction ps arbitrary: m0) (auto simp: fun_eq_iff)

lemma matchAll_none: "(\<And>t. suffix t s \<Longrightarrow> m t = None) \<Longrightarrow> matchAll m i s = []"
proof (induction s arbitrary: i)
  case Nil
  then show ?case by (simp add: matchAll.simps)
next
  case (Cons x xs)
  have "m (x # xs) = None" using Cons.prems by simp
  moreover have "matchAll m (Suc i) xs = []"
    using Cons.prems by (intro Cons.IH) (simp add: suffix_Cons)
  ultimately show ?case by (simp add: matchAll.simps)
qed

lemma searchFirst_append:
  "searchFirst m s = Some (pre, mt, c, post) \<Longrightarrow> pre @ mt @ post = s"
proof (induction s arbitrary: pre)
  case Nil
  then show ?case by (auto split: option.splits)
next
  case (Cons x xs)
  then show ?case by (auto split: option.splits)
qed

lemma extensionRegex_all: "extensionRegex s = Some (n, c) \<Longrightarrow> n = length s"
  by (auto simp: extensionRegex_def split: list.splits if_splits)

lemma searchFirst_extension:
  "searchFirst extensionRegex s = Some (pre, mt, c, post) \<Longrightarrow> post = [] \<and> pre @ mt = s"
proof (induction s arbitrary: pre)
  case Nil
  then show ?case by (auto simp: extensionRegex_def split: option.splits)
next
  case (Cons x xs)
  show ?case
  proof (cases "extensionRegex (x # xs)")
    case None
    with Cons.prems obtain pre' where "searchFirst extensionRegex xs = Some (pre', mt, c, post)"
      and "pre = x # pre'" by auto
    with Cons.IH show ?thesis by auto
  next
    case (Some r)
    then obtain n u where "extensionRegex (x # xs) = Some (n, u)" by (cases r) auto
    with Cons.prems extensionRegex_all [of "x # xs" n u] show ?thesis by auto
  qed
qed

lemma name_ext: "nameWithoutExt filename @ ext filename = filename"
proof (cases "searchFirst extensionRegex filename")
  case None
  then show ?thesis by (simp add: nameWithoutExt_def ext_def)
next
  case (Some r)
  obtain pre mt c post where r: "r = (pre, mt, c, post)" by (cases r) auto
  with Some searchFirst_extension [of filename pre mt c post] show ?thesis
    by (simp add: nameWithoutExt_def ext_def)
qed

lemma variations_mapped:
  "imageMap (st\<lparr>imageMap := fold (\<lambda>path m. m(path \<mapsto> v)) ps (imageMap st), addedImages := a\<rparr>) p
   = (if p \<in> set ps then Some v else imageMap st p)"
  by (simp add: fold_update)

lemma uploadFile_accepted:
  assumes "prefix ''image/'' (file_type asset)"
    and "(if file_size asset > 100 * 1024 then cmp asset else Inr asset) = Inr processed"
    and "convertImageToBase64 rd processed = Inr base64"
  shows "imageMap (uploadFile cmp rd asset st)
         = (\<lambda>p. if p \<in> set (generatePathVariations (file_name asset)) then Some base64
                 else imageMap st p)"
  using assms by (simp add: uploadFile_def Let_def fold_update fun_eq_iff)

lemma obsidian_needs_bang: "obsidianImageRegex s = Some r \<Longrightarrow> \<exists>t. s = CHR ''!'' # t"
  by (cases s) (auto simp: obsidianImageRegex_def split: if_splits)

lemma no_obsidian: "CHR ''!'' \<notin> set s \<Longrightarrow> matchAll obsidianImageRegex i s = []"
proof (rule matchAll_none)
  fix t assume a: "CHR ''!'' \<notin> set s" and "suffix t s"
  then have "CHR ''!'' \<notin> set t" by (auto simp: suffix_def)
  show "obsidianImageRegex t = None"
  proof (cases "obsidianImageRegex t")
    case None
    then show ?thesis .
  next
    case (Some r)
    from obsidian_needs_bang [OF Some] \<open>CHR ''!'' \<notin> set t\<close> show ?thesis by auto
  qed
qed

lemma not_dataUrlChar: "\<not> dataUrlChar CHR ''$''" "\<not> dataUrlChar CHR ''!''"
  by (simp_all add: dataUrlChar_def lowerLetters_def upperLetters_def)

lemma dataUrl_chars:
  assumes "list_all dataUrlChar b"
  shows "CHR ''$'' \<notin> set b" "CHR ''!'' \<notin> set b"
  using assms not_dataUrlChar by (auto simp: list_all_iff)

lemma resolve_diagram:
  assumes "images ''diagram.png'' = Some b" "b \<noteq> []" "list_all dataUrlChar b"
  shows "processMarkdownImages ''![x](diagram.png)'' images = ''![x]('' @ b @ '')''"
proof -
  have m: "matchAll standardImageRegex 0 ''![x](diagram.png)''
           = [(0, ''![x](diagram.png)'', ''x'', ''diagram.png'')]"
    by (simp add: matchAll.simps standardImageRegex_def)
  have r: "replaceFirst ''![x](diagram.png)'' (''![x]('' @ b @ '')'') ''![x](diagram.png)''
           = ''![x]('' @ b @ '')''"
    using dataUrl_chars(1) [OF assms(3)] by (simp add: replaceFirst_def getSubstitution_plain)
  have o: "matchAll obsidianImageRegex 0 (''![x]('' @ b @ '')'') = []"
    using no_obsidian [of "b @ '')''"] dataUrl_chars(2) [OF assms(3)]
    by (simp add: matchAll.simps obsidianImageRegex_def)
  show ?thesis
    unfolding processMarkdownImages_def m
    using assms(1,2) by (simp add: r [simplified] o [simplified])
qed

lemma case_tables:
  "length (upperLetters @ upperLatin) = length (lowerLetters @ lowerLatin)"
  "distinct (upperLetters @ upperLatin)"
  "distinct (lowerLetters @ lowerLatin)"
  by (simp_all add: upperLetters_def upperLatin_def lowerLetters_def lowerLatin_def)

lemma case_tables_disjoint:
  "set (upperLetters @ upperLatin) \<inter> set (lowerLetters @ lowerLatin) = {}"
  by (simp add: upperLetters_def upperLatin_def lowerLetters_def lowerLatin_def)

lemma lower_of_small:
  "c \<notin> set (upperLetters @ upperLatin) \<Longrightarrow> toLowerCase [c] = [c]"
  using map_of_zip_is_None [OF case_tables(1), of c] by (simp add: toLowerCase_def)

lemma lower_of_capital:
  assumes "i < length (upperLetters @ upperLatin)"
  shows "toLowerCase [(upperLetters @ upperLatin) ! i] = [(lowerLetters @ lowerLatin) ! i]"
  using map_of_zip_nth [OF case_tables(1) case_tables(2), of i] assms case_tables(1)
  by (simp add: toLowerCase_def)

lemma toLowerCase_append: "toLowerCase (a @ b) = toLowerCase a @ toLowerCase b"
  by (simp add: toLowerCase_def)

lemma toLowerCase_Cons: "toLowerCase (c # cs) = toLowerCase [c] @ toLowerCase cs"
  by (simp add: toLowerCase_def)

lemma lower_has_no_capital:
  "c \<in> set (toLowerCase e) \<Longrightarrow> c \<notin> set (upperLetters @ upperLatin)"
proof (induction e)
  case Nil
  then show ?case by (simp add: toLowerCase_def)
next
  case (Cons d e)
  from Cons.prems have "c \<in> set (toLowerCase [d]) \<or> c \<in> set (toLowerCase e)"
    by (subst (asm) toLowerCase_Cons) simp
  then show ?case
  proof
    assume c: "c \<in> set (toLowerCase [d])"
    show ?thesis
    proof (cases "d \<in> set (upperLetters @ upperLatin)")
      case True
      then obtain i where i: "i < length (upperLetters @ upperLatin)"
        and d: "d = (upperLetters @ upperLatin) ! i"
        unfolding in_set_conv_nth by blast
      from c have "c = (lowerLetters @ lowerLatin) ! i"
        unfolding d lower_of_capital [OF i] by simp
      with i case_tables(1) have "c \<in> set (lowerLetters @ lowerLatin)"
        by (metis nth_mem)
      with case_tables_disjoint show ?thesis by blast
    next
      case False
      with c show ?thesis by (simp add: lower_of_small)
    qed
  next
    assume "c \<in> set (toLowerCase e)"
    then show ?thesis by (rule Cons.IH)
  qed
qed

lemma those_map_Some:
  "those (map f xs) = Some ys \<Longrightarrow> ys = map (\<lambda>x. the (f x)) xs \<and> (\<forall>x \<in> set xs. f x \<noteq> None)"
  by (induction xs arbitrary: ys) (auto split: option.splits)

lemma those_map_None: "those (map f xs) = None \<longleftrightarrow> (\<exists>x \<in> set xs. f x = None)"
  by (induction xs) (auto split: option.splits)

lemma upperChar_None: "upperChar c = None \<longleftrightarrow> c = CHR 0xB5 \<or> c = CHR 0xFF"
  by (simp add: upperChar_def split: option.splits)

lemma toUpperCase_None:
  "toUpperCase e = None \<longleftrightarrow> CHR 0xB5 \<in> set e \<or> CHR 0xFF \<in> set e"
  by (auto simp: toUpperCase_def those_map_None upperChar_None)

lemma toUpperCase_Some:
  "toUpperCase e = Some u \<Longrightarrow> u = concat (map (\<lambda>c. the (upperChar c)) e)
     \<and> CHR 0xB5 \<notin> set e \<and> CHR 0xFF \<notin> set e"
proof -
  assume u: "toUpperCase e = Some u"
  then obtain ys where ys: "those (map upperChar e) = Some ys" and c: "u = concat ys"
    by (auto simp: toUpperCase_def)
  from those_map_Some [OF ys] c have "u = concat (map (\<lambda>c. the (upperChar c)) e)" by simp
  moreover from u toUpperCase_None [of e] have "CHR 0xB5 \<notin> set e \<and> CHR 0xFF \<notin> set e" by auto
  ultimately show ?thesis by simp
qed

lemma upperChar_cases:
  assumes "c \<noteq> CHR 0xB5" "c \<noteq> CHR 0xFF"
  obtains "c = CHR 0xDF" "upperChar c = Some ''SS''"
  | i where "c \<noteq> CHR 0xDF" "i < length (lowerLetters @ lowerLatin)"
      "c = (lowerLetters @ lowerLatin) ! i" "upperChar c = Some [(upperLetters @ upperLatin) ! i]"
  | "c \<noteq> CHR 0xDF" "c \<notin> set (lowerLetters @ lowerLatin)" "upperChar c = Some [c]"
proof (cases "c = CHR 0xDF")
  case True
  then have "upperChar c = Some ''SS''" by (simp add: upperChar_def)
  with True that(1) show ?thesis by blast
next
  case False
  show ?thesis
  proof (cases "c \<in> set (lowerLetters @ lowerLatin)")
    case True
    then obtain i where i: "i < length (lowerLetters @ lowerLatin)"
      and c: "c = (lowerLetters @ lowerLatin) ! i"
      unfolding in_set_conv_nth by blast
    from map_of_zip_nth [OF case_tables(1) [symmetric] case_tables(3), of i] i case_tables(1)
    have "map_of (zip (lowerLetters @ lowerLatin) (upperLetters @ upperLatin)) c
          = Some ((upperLetters @ upperLatin) ! i)"
      by (simp add: c)
    with assms False have "upperChar c = Some [(upperLetters @ upperLatin) ! i]"
      by (simp add: upperChar_def)
    with False i c that(2) show ?thesis by blast
  next
    case n: False
    from map_of_zip_is_None [OF case_tables(1) [symmetric], of c] n
    have "map_of (zip (lowerLetters @ lowerLatin) (upperLetters @ upperLatin)) c = None"
      by simp
    with assms False have "upperChar c = Some [c]" by (simp add: upperChar_def)
    with False n that(3) show ?thesis by blast
  qed
qed

lemma upper_has_no_small:
  assumes "toUpperCase e = Some u" "c \<in> set u"
  shows "c \<notin> set (lowerLetters @ lowerLatin)"
proof -
  from toUpperCase_Some [OF assms(1)] assms(2)
  obtain d where d: "d \<in> set e" "c \<in> set (the (upperChar d))"
    and n: "d \<noteq> CHR 0xB5" "d \<noteq> CHR 0xFF"
    by auto
  from n show ?thesis
  proof (cases rule: upperChar_cases)
    case 1
    with d(2) have "c = CHR ''S''" by simp
    then show ?thesis
      by (simp add: upperLetters_def upperLatin_def lowerLetters_def lowerLatin_def)
  next
    case (2 i)
    with d(2) have "c = (upperLetters @ upperLatin) ! i" by simp
    with 2(2) case_tables(1) have "c \<in> set (upperLetters @ upperLatin)"
      by (metis nth_mem)
    with case_tables_disjoint show ?thesis by blast
  next
    case 3
    with d(2) show ?thesis by simp
  qed
qed

lemma lower_of_upper:
  assumes "toUpperCase e = Some u" "CHR 0xDF \<notin> set e"
  shows "toLowerCase u = toLowerCase e"
  using assms
proof (induction e arbitrary: u)
  case Nil
  then show ?case by (simp add: toUpperCase_def)
next
  case (Cons d e)
  from toUpperCase_Some [OF Cons.prems(1)]
  have u: "u = the (upperChar d) @ concat (map (\<lambda>c. the (upperChar c)) e)"
    and n: "d \<noteq> CHR 0xB5" "d \<noteq> CHR 0xFF" "CHR 0xB5 \<notin> set e" "CHR 0xFF \<notin> set e"
    by auto
  from n(3,4) toUpperCase_None [of e] obtain v where v: "toUpperCase e = Some v" by auto
  from toUpperCase_Some [OF v] have v': "v = concat (map (\<lambda>c. the (upperChar c)) e)" by simp
  from Cons.IH [OF v] Cons.prems(2) have t: "toLowerCase v = toLowerCase e" by simp
  have h: "toLowerCase (the (upperChar d)) = toLowerCase [d]"
    using n(1,2)
  proof (cases rule: upperChar_cases)
    case 1
    with Cons.prems(2) show ?thesis by simp
  next
    case (2 i)
    from 2(2,3) have "d \<in> set (lowerLetters @ lowerLatin)" by (metis nth_mem)
    with case_tables_disjoint have "d \<notin> set (upperLetters @ upperLatin)" by blast
    then have "toLowerCase [d] = [d]" by (rule lower_of_small)
    moreover from 2(2) case_tables(1) have "i < length (upperLetters @ upperLatin)" by simp
    from lower_of_capital [OF this] 2(3,4)
    have "toLowerCase (the (upperChar d)) = [d]" by simp
    ultimately show ?thesis by simp
  next
    case 3
    then show ?thesis by simp
  qed
  show ?case
    unfolding u toLowerCase_append h v' [symmetric] t
    by (subst (2) toLowerCase_Cons) simp
qed

text \<open>
  Claim C8. The path variants are a function of the display name alone. For a name with an
  extension they hold the name with the extension in lower case, which has no capital
  letter, and the name with the extension in upper case, which has no small letter and,
  where no sharp s is written out as \<open>SS\<close>, is the same as the former but for the case of its
  letters (the upper-case form is a text of the embedding unless the extension holds
  U+00B5 or U+00FF); an accepted upload maps every variant to the same embedded text. So after the upload of \<open>diagram.PNG\<close> the reference
  \<open>![x](diagram.png)\<close> is resolved to the embedded image, and after the upload of
  \<open>diagram.png\<close> the path \<open>diagram.PNG\<close> is a key of the index.
\<close>

theorem path_variants_resolve:
  assumes "prefix ''image/'' (file_type asset)"
    and "(if file_size asset > 100 * 1024 then cmp asset else Inr asset) = Inr processed"
    and "convertImageToBase64 rd processed = Inr base64"
  shows "nameWithoutExt (file_name asset) @ ext (file_name asset) = file_name asset
    \<and> (ext (file_name asset) \<noteq> [] \<longrightarrow>
         nameWithoutExt (file_name asset) @ toLowerCase (ext (file_name asset))
           \<in> set (generatePathVariations (file_name asset))
         \<and> (\<forall>c \<in> set (toLowerCase (ext (file_name asset))). c \<notin> set (upperLetters @ upperLatin))
         \<and> (CHR 0xB5 \<notin> set (ext (file_name asset)) \<and> CHR 0xFF \<notin> set (ext (file_name asset))
              \<longrightarrow> (\<exists>u. toUpperCase (ext (file_name asset)) = Some u))
         \<and> (\<forall>u. toUpperCase (ext (file_name asset)) = Some u \<longrightarrow>
                nameWithoutExt (file_name asset) @ u \<in> set (generatePathVariations (file_name asset))
                \<and> (\<forall>c \<in> set u. c \<notin> set (lowerLetters @ lowerLatin))
                \<and> (CHR 0xDF \<notin> set (ext (file_name asset))
                     \<longrightarrow> toLowerCase u = toLowerCase (ext (file_name asset)))))
    \<and> (\<forall>p \<in> set (generatePathVariations (file_name asset)).
          imageMap (uploadFile cmp rd asset st) p = Some base64)
    \<and> (file_name asset = ''diagram.PNG'' \<and> base64 \<noteq> [] \<and> list_all dataUrlChar base64 \<longrightarrow>
          generatePathVariations (file_name asset) ! 12 = ''diagram.png''
          \<and> processMarkdownImages ''![x](diagram.png)'' (imageMap (uploadFile cmp rd asset st))
              = ''![x]('' @ base64 @ '')'')
    \<and> (file_name asset = ''diagram.png'' \<longrightarrow>
          generatePathVariations (file_name asset) ! 13 = ''diagram.PNG''
          \<and> imageMap (uploadFile cmp rd asset st) ''diagram.PNG'' = Some base64)"
proof (intro conjI impI ballI allI)
  show "nameWithoutExt (file_name asset) @ ext (file_name asset) = file_name asset"
    by (rule name_ext)
next
  assume "ext (file_name asset) \<noteq> []"
  then show "nameWithoutExt (file_name asset) @ toLowerCase (ext (file_name asset))
           \<in> set (generatePathVariations (file_name asset))"
    by (simp add: generatePathVariations_def)
next
  fix c assume "c \<in> set (toLowerCase (ext (file_name asset)))"
  then show "c \<notin> set (upperLetters @ upperLatin)" by (rule lower_has_no_capital)
next
  assume "CHR 0xB5 \<notin> set (ext (file_name asset)) \<and> CHR 0xFF \<notin> set (ext (file_name asset))"
  with toUpperCase_None [of "ext (file_name asset)"]
  show "\<exists>u. toUpperCase (ext (file_name asset)) = Some u" by auto
next
  fix u assume "ext (file_name asset) \<noteq> []" and "toUpperCase (ext (file_name asset)) = Some u"
  then show "nameWithoutExt (file_name asset) @ u \<in> set (generatePathVariations (file_name asset))"
    by (simp add: generatePathVariations_def)
next
  fix u c assume "toUpperCase (ext (file_name asset)) = Some u" and "c \<in> set u"
  then show "c \<notin> set (lowerLetters @ lowerLatin)" by (rule upper_has_no_small)
next
  fix u assume "toUpperCase (ext (file_name asset)) = Some u"
    and "CHR 0xDF \<notin> set (ext (file_name asset))"
  then show "toLowerCase u = toLowerCase (ext (file_name asset))" by (rule lower_of_upper)
next
  fix p assume "p \<in> set (generatePathVariations (file_name asset))"
  then show "imageMap (uploadFile cmp rd asset st) p = Some base64"
    by (simp add: uploadFile_accepted [where cmp = cmp and asset = asset, OF assms])
next
  assume a: "file_name asset = ''diagram.PNG'' \<and> base64 \<noteq> [] \<and> list_all dataUrlChar base64"
  have e: "ext ''diagram.PNG'' = ''.PNG''" "nameWithoutExt ''diagram.PNG'' = ''diagram''"
    by (simp_all add: ext_def nameWithoutExt_def extensionRegex_def)
  have l: "toLowerCase ''.PNG'' = ''.png''"
    by (simp add: toLowerCase_def upperLetters_def lowerLetters_def upperLatin_def lowerLatin_def)
  from a show v: "generatePathVariations (file_name asset) ! 12 = ''diagram.png''"
    by (simp add: generatePathVariations_def e l)
  have "''diagram.png'' \<in> set (generatePathVariations (file_name asset))"
    using a by (simp add: generatePathVariations_def e l)
  then have "imageMap (uploadFile cmp rd asset st) ''diagram.png'' = Some base64"
    by (simp add: uploadFile_accepted [where cmp = cmp and asset = asset, OF assms])
  with a show "processMarkdownImages ''![x](diagram.png)'' (imageMap (uploadFile cmp rd asset st))
              = ''![x]('' @ base64 @ '')''"
    by (intro resolve_diagram) simp_all
next
  assume a: "file_name asset = ''diagram.png''"
  have e: "ext ''diagram.png'' = ''.png''" "nameWithoutExt ''diagram.png'' = ''diagram''"
    by (simp_all add: ext_def nameWithoutExt_def extensionRegex_def)
  have l: "toLowerCase ''.png'' = ''.png''"
    by (simp add: toLowerCase_def upperLetters_def lowerLetters_def upperLatin_def lowerLatin_def)
  have u: "toUpperCase ''.png'' = Some ''.PNG''"
    by (simp add: toUpperCase_def upperChar_def upperLetters_def lowerLetters_def
        upperLatin_def lowerLatin_def)
  from a show "generatePathVariations (file_name asset) ! 13 = ''diagram.PNG''"
    by (simp add: generatePathVariations_def e l u)
  have "''diagram.PNG'' \<in> set (generatePathVariations (file_name asset))"
    using a by (simp add: generatePathVariations_def e l u)
  then show "imageMap (uploadFile cmp rd asset st) ''diagram.PNG'' = Some base64"
    by (simp add: uploadFile_accepted [where cmp = cmp and asset = asset, OF assms])
qed

theorem path_variants_resolve_witness:
  "prefix ''image/'' (file_type smallPng)
   \<and> convertImageToBase64 (\<lambda>f. Some ''data:image/png;base64,iVBORw0KGgo='') smallPng
       = Inr ''data:image/png;base64,iVBORw0KGgo=''
   \<and> ext (file_name smallPng) = ''.PNG''
   \<and> toLowerCase ''.PNG'' = ''.png'' \<and> toUpperCase ''.PNG'' = Some ''.PNG''
   \<and> ''diagram.png'' \<in> set (generatePathVariations (file_name smallPng))
   \<and> ''diagram.PNG'' \<in> set (generatePathVariations (file_name smallPng))
   \<and> processMarkdownImages ''![x](diagram.png)''
        (imageMap (uploadFile (\<lambda>f. Inr f) (\<lambda>f. Some ''data:image/png;base64,iVBORw0KGgo='') smallPng
           \<lparr>imageMap = Map.empty, addedImages = [], toasts = [],
            totalOriginalSize = 0, totalCompressedSize = 0\<rparr>))
       = ''![x](data:image/png;base64,iVBORw0KGgo=)''
   \<and> prefix ''image/'' (file_type lowerPng)
   \<and> convertImageToBase64 (\<lambda>f. Some ''data:image/png;base64,iVBORw0KGgo='') lowerPng
       = Inr ''data:image/png;base64,iVBORw0KGgo=''
   \<and> generatePathVariations (file_name lowerPng) ! 13 = ''diagram.PNG''
   \<and> imageMap (uploadFile (\<lambda>f. Inr f) (\<lambda>f. Some ''data:image/png;base64,iVBORw0KGgo='') lowerPng
           \<lparr>imageMap = Map.empty, addedImages = [], toasts = [],
            totalOriginalSize = 0, totalCompressedSize = 0\<rparr>) ''diagram.PNG''
       = Some ''data:image/png;base64,iVBORw0KGgo=''"
proof -
  have c: "convertImageToBase64 (\<lambda>f. Some ''data:image/png;base64,iVBORw0KGgo='') smallPng
       = Inr ''data:image/png;base64,iVBORw0KGgo=''"
    by (simp add: convertImageToBase64_def smallPng_def MAX_FILE_SIZE_def)
  have p: "prefix ''image/'' (file_type smallPng)"
    and s: "(if file_size smallPng > 100 * 1024 then (\<lambda>f. Inr f) smallPng else Inr smallPng) = Inr smallPng"
    by (simp_all add: smallPng_def)
  have d: "''data:image/png;base64,iVBORw0KGgo='' \<noteq> []
           \<and> list_all dataUrlChar ''data:image/png;base64,iVBORw0KGgo=''"
    by (simp add: dataUrlChar_def lowerLetters_def upperLetters_def)
  have e: "ext (file_name smallPng) = ''.PNG''" "nameWithoutExt (file_name smallPng) = ''diagram''"
    by (simp_all add: smallPng_def ext_def nameWithoutExt_def extensionRegex_def)
  have n: "file_name smallPng = ''diagram.PNG''" by (simp add: smallPng_def)
  have l: "toLowerCase ''.PNG'' = ''.png''"
    by (simp add: toLowerCase_def upperLetters_def lowerLetters_def upperLatin_def lowerLatin_def)
  have u: "toUpperCase ''.PNG'' = Some ''.PNG''"
    by (simp add: toUpperCase_def upperChar_def upperLetters_def lowerLetters_def
        upperLatin_def lowerLatin_def)
  have c': "convertImageToBase64 (\<lambda>f. Some ''data:image/png;base64,iVBORw0KGgo='') lowerPng
       = Inr ''data:image/png;base64,iVBORw0KGgo=''"
    by (simp add: convertImageToBase64_def lowerPng_def MAX_FILE_SIZE_def)
  have p': "prefix ''image/'' (file_type lowerPng)"
    and s': "(if file_size lowerPng > 100 * 1024 then (\<lambda>f. Inr f) lowerPng else Inr lowerPng) = Inr lowerPng"
    and n': "file_name lowerPng = ''diagram.png''"
    by (simp_all add: lowerPng_def)
  note th = path_variants_resolve
    [where cmp = "\<lambda>f. Inr f" and asset = smallPng
       and st = "\<lparr>imageMap = Map.empty, addedImages = [], toasts = [],
                  totalOriginalSize = 0, totalCompressedSize = 0\<rparr>", OF p s c]
  note th' = path_variants_resolve
    [where cmp = "\<lambda>f. Inr f" and asset = lowerPng
       and st = "\<lparr>imageMap = Map.empty, addedImages = [], toasts = [],
                  totalOriginalSize = 0, totalCompressedSize = 0\<rparr>", OF p' s' c']
  have x: "ext (file_name smallPng) \<noteq> []" by (simp add: e)
  note v = th [THEN conjunct2, THEN conjunct1, rule_format, OF x]
  have low: "''diagram.png'' \<in> set (generatePathVariations (file_name smallPng))"
    using v [THEN conjunct1] by (simp add: e l)
  have up: "''diagram.PNG'' \<in> set (generatePathVariations (file_name smallPng))"
    using v [THEN conjunct2, THEN conjunct2, THEN conjunct2, rule_format, OF u [folded e(1)],
             THEN conjunct1]
    by (simp add: e)
  have res: "processMarkdownImages ''![x](diagram.png)''
        (imageMap (uploadFile (\<lambda>f. Inr f) (\<lambda>f. Some ''data:image/png;base64,iVBORw0KGgo='') smallPng
           \<lparr>imageMap = Map.empty, addedImages = [], toasts = [],
            totalOriginalSize = 0, totalCompressedSize = 0\<rparr>))
       = ''![x](data:image/png;base64,iVBORw0KGgo=)''"
    using th [THEN conjunct2, THEN conjunct2, THEN conjunct2, THEN conjunct1, rule_format,
              OF conjI [OF n d]]
    by simp
  note w = th' [THEN conjunct2, THEN conjunct2, THEN conjunct2, THEN conjunct2, rule_format, OF n']
  from c p e(1) l u low up res c' p' w show ?thesis by blast
qed

section \<open>Properties of the template engine\<close>

lemmas engine_defs =
  processTemplate_def substituteVariable_def substituteText_def replaceReferences_def
  replaceRegions_def bareSource_def nameSource_def
  plainName_def isSyntaxChar_def quantifierLike_def isDigit_def unterminatedGroup_def
  listStep_def ifStep_def unlessStep_def regionStep_def computedPass_def
  matchLiteral_def matchRegion_def matchComputed_def expandList_def expandItem_def itemStep_def
  trim_def isSpace_def truthy_def replaceAll.simps replaceAllO.simps

lemma foldOutcome_returned:
  "(\<And>x s. x \<in> set xs \<Longrightarrow> f x s = Returned (g x s)) \<Longrightarrow> foldOutcome f xs s = Returned (fold g xs s)"
  by (induction xs arbitrary: s) simp_all

lemma mapOutcome_returned:
  "(\<And>x. x \<in> set xs \<Longrightarrow> f (h x) = Returned (g x))
   \<Longrightarrow> mapOutcome f (map h xs) = Returned (map g xs)"
  by (induction xs) simp_all

lemma expandList_records:
  assumes "list_all (\<lambda>kvs. list_all (\<lambda>kv. bareSource (fst kv) = Literal) kvs) records"
  shows "expandList (map JObject records) template
         = Returned (joinWith [CHR 0x0A]
             (map (\<lambda>kvs. trim (fold (\<lambda>kv s. replaceAll (matchLiteral (''{{'' @ fst kv @ ''}}''))
                                           (\<lambda>pre m c post. getSubstitution m pre post (ToString (snd kv)))
                                           [] s) kvs template)) records))"
proof -
  have item: "expandItem template (JObject kvs)
        = Returned (trim (fold (\<lambda>kv s. replaceAll (matchLiteral (''{{'' @ fst kv @ ''}}''))
                                           (\<lambda>pre m c post. getSubstitution m pre post (ToString (snd kv)))
                                           [] s) kvs template))"
    if "kvs \<in> set records" for kvs
  proof -
    from that assms have "list_all (\<lambda>kv. bareSource (fst kv) = Literal) kvs"
      by (simp add: list_all_iff)
    then have "foldOutcome itemStep kvs template
        = Returned (fold (\<lambda>kv s. replaceAll (matchLiteral (''{{'' @ fst kv @ ''}}''))
                                           (\<lambda>pre m c post. getSubstitution m pre post (ToString (snd kv)))
                                           [] s) kvs template)"
      by (intro foldOutcome_returned)
        (simp add: list_all_iff itemStep_def substituteText_def replaceReferences_def)
    then show ?thesis by (simp add: expandItem_def)
  qed
  have "mapOutcome (expandItem template) (map JObject records)
        = Returned (map (\<lambda>kvs. trim (fold (\<lambda>kv s. replaceAll (matchLiteral (''{{'' @ fst kv @ ''}}''))
                                           (\<lambda>pre m c post. getSubstitution m pre post (ToString (snd kv)))
                                           [] s) kvs template)) records)"
    by (intro mapOutcome_returned item)
  then show ?thesis by (simp add: expandList_def)
qed

text \<open>
  Claim C3, as amended. For a list value that \<open>JSON.parse\<close> reads as the two records, the
  body \<open>{{#items}}-{{label}}\n{{/items}}\<close> expands to \<open>-A\n-B\<close>, with no line feed at the
  end: the fields of each record are substituted into a copy of the region's template,
  each copy is trimmed, and the copies are joined by one line feed in the order of the
  records.
\<close>

theorem list_iteration_trimmed_joined:
  "(jp raw = Some itemsJson \<longrightarrow>
      processTemplate jp ev itemsBody [\<lparr>var_name = ''items'', var_value = raw, var_type = TList\<rparr>]
        = Returned (''-A'' @ [CHR 0x0A] @ ''-B''))
   \<and> (list_all (\<lambda>kvs. list_all (\<lambda>kv. bareSource (fst kv) = Literal) kvs) records \<longrightarrow>
        expandList (map JObject records) template
          = Returned (joinWith [CHR 0x0A]
              (map (\<lambda>kvs. trim (fold (\<lambda>kv s. replaceAll (matchLiteral (''{{'' @ fst kv @ ''}}''))
                                     (\<lambda>pre m c post. getSubstitution m pre post (ToString (snd kv)))
                                     [] s) kvs template)) records)))"
proof (intro conjI impI)
  assume "jp raw = Some itemsJson"
  then show "processTemplate jp ev itemsBody
               [\<lparr>var_name = ''items'', var_value = raw, var_type = TList\<rparr>]
             = Returned (''-A'' @ [CHR 0x0A] @ ''-B'')"
    by (simp add: engine_defs itemsJson_def itemsBody_def)
qed (rule expandList_records)

theorem list_iteration_trimmed_joined_witness:
  "parseItems itemsText = Some itemsJson
   \<and> processTemplate parseItems noEval itemsBody
        [\<lparr>var_name = ''items'', var_value = itemsText, var_type = TList\<rparr>]
       = Returned (''-A'' @ [CHR 0x0A] @ ''-B'')
   \<and> list_all (\<lambda>kvs. list_all (\<lambda>kv. bareSource (fst kv) = Literal) kvs)
        [[(''label'', JString ''A'')], [(''label'', JString ''B'')]]
   \<and> expandList [JObject [(''label'', JString ''A'')], JObject [(''label'', JString ''B'')]]
        (''-{{label}}'' @ [CHR 0x0A])
       = Returned (''-A'' @ [CHR 0x0A] @ ''-B'')"
proof -
  have k: "list_all (\<lambda>kvs. list_all (\<lambda>kv. bareSource (fst kv) = Literal) kvs)
        [[(''label'', JString ''A'')], [(''label'', JString ''B'')]]"
    by (simp add: bareSource_def plainName_def isSyntaxChar_def quantifierLike_def isDigit_def)
  show ?thesis
    using list_iteration_trimmed_joined
      [of parseItems itemsText noEval "[[(''label'', JString ''A'')], [(''label'', JString ''B'')]]"
        "''-{{label}}'' @ [CHR 0x0A]"] k
    by (simp add: parseItems_def matchLiteral_def replaceAll.simps trim_def isSpace_def)
qed

text \<open>
  Claim C3 as stated: the expansion is not \<open>-A\n-B\n\<close>.
\<close>

theorem list_iteration_counterexample:
  "processTemplate parseItems noEval itemsBody
     [\<lparr>var_name = ''items'', var_value = itemsText, var_type = TList\<rparr>]
   \<noteq> Returned (''-A'' @ [CHR 0x0A] @ ''-B'' @ [CHR 0x0A])"
  by (simp add: engine_defs parseItems_def itemsJson_def itemsBody_def)

text \<open>
  Claim C4 at a document with an expression that does not evaluate and a variable whose
  name leaves a group open: the span is not returned unchanged, the expansion throws.
\<close>

theorem expression_span_name_throws:
  "processTemplate noParse noEval ''{{= 1 + }}''
     [\<lparr>var_name = ''('', var_value = ''1'', var_type = TNumber\<rparr>]
   = Thrown SyntaxError"
  by (simp add: engine_defs)

section \<open>Properties of the scanner and the rewriter\<close>

lemmas scanner_defs =
  smartComponents_def parseCharts_def parseTimelines_def parseProgress_def parseTasks_def
  parseAlerts_def parseStats_def chartRegex_def timelineRegex_def matchFenceOpt_def
  progressRegex_def alertRegex_def alertTypes_def matchRegion_def fence_def matchAll.simps
  progressComponent_def chartComponent_def chartType_def isChartType_def chartRow_def
  mkMatch_def isDigit_def parseDigits_def digitVal_def parseInt_small trim_def isSpace_def
  toLowerCase_def upperLetters_def lowerLetters_def upperLatin_def lowerLatin_def
  List.map_filter_def nonBlankLines_def

lemma length_showNat: "length (showNat n) > 0"
  by (induction n rule: showNat.induct) (subst showNat.simps, simp)

lemma digitChar_inj: "a < 10 \<Longrightarrow> b < 10 \<Longrightarrow> digitChar a = digitChar b \<Longrightarrow> a = b"
proof -
  assume a: "a < 10" and b: "b < 10" and e: "digitChar a = digitChar b"
  have d: "distinct ''0123456789''" by simp
  from a b e show ?thesis
    using nth_eq_iff_index_eq [OF d, of a b] by (simp add: digitChar_def)
qed

lemma showNat_inj: "showNat n = showNat m \<Longrightarrow> n = m"
proof (induction n arbitrary: m rule: showNat.induct)
  case (1 n)
  show ?case
  proof (cases "n < 10")
    case True
    show ?thesis
    proof (cases "m < 10")
      case m: True
      with True "1.prems" show ?thesis
        by (simp add: showNat.simps [of n] showNat.simps [of m] digitChar_inj)
    next
      case False
      with True "1.prems" length_showNat [of "m div 10"] show ?thesis
        by (simp add: showNat.simps [of n] showNat.simps [of m])
    qed
  next
    case False
    show ?thesis
    proof (cases "m < 10")
      case True
      with False "1.prems" length_showNat [of "n div 10"] show ?thesis
        by (simp add: showNat.simps [of n] showNat.simps [of m])
    next
      case m: False
      with False "1.prems" have e: "showNat (n div 10) = showNat (m div 10)"
        and d: "digitChar (n mod 10) = digitChar (m mod 10)"
        by (simp_all add: showNat.simps [of n] showNat.simps [of m])
      from "1.IH" [OF False e] have "n div 10 = m div 10" .
      moreover from d have "n mod 10 = m mod 10" by (intro digitChar_inj) simp_all
      ultimately show ?thesis by (metis div_mult_mod_eq)
    qed
  qed
qed

lemma placeholder_inj: "inj placeholder"
  by (auto simp: inj_def placeholder_def dest: showNat_inj)

lemma map_fst_enumerate_map:
  "map (\<lambda>(index, comp). f index) (enumerate k xs) = map f [k..<k + length xs]"
proof -
  have g: "map (\<lambda>(index, comp). f index) ys = map f (map fst ys)" for ys :: "(nat \<times> 'b) list"
    by (simp add: case_prod_unfold comp_def)
  show ?thesis by (simp only: g map_fst_enumerate)
qed

lemma markerKeys_upt: "markerKeys md = map placeholder [0..<length (smartComponents md)]"
  using map_fst_enumerate_map [of placeholder 0 "smartComponents md"]
  by (simp add: markerKeys_def componentMap_def comp_def case_prod_unfold)

lemma sublist_placeholder: "sublist ''<!--SMART_COMPONENT_'' (placeholder i)"
  unfolding placeholder_def by (intro prefix_imp_sublist) simp

lemma showNat_digits: "set (showNat n) \<subseteq> set ''0123456789''"
proof (induction n rule: showNat.induct)
  case (1 n)
  have d: "digitChar k \<in> set ''0123456789''" for k
    unfolding digitChar_def by (intro nth_mem) simp
  show ?case
  proof (cases "n < 10")
    case True
    with d [of n] show ?thesis by (subst showNat.simps) simp
  next
    case False
    with "1.IH" d [of "n mod 10"] show ?thesis by (subst showNat.simps) simp
  qed
qed

lemma placeholder_plain: "CHR ''$'' \<notin> set (placeholder i)"
  using showNat_digits [of i] by (auto simp: placeholder_def)

lemma replaceFirst_marker:
  "replaceFirst c (placeholder i) t
   = (case splitFirst c t of None \<Rightarrow> t | Some (a, b) \<Rightarrow> a @ placeholder i @ b)"
  by (simp add: replaceFirst_def getSubstitution_plain placeholder_plain split: option.splits)

lemma enumerate_nth: "enumerate 0 xs = map (\<lambda>i. (i, xs ! i)) [0..<length xs]"
  by (rule nth_equalityI) (simp_all add: nth_enumerate_eq)

lemma fold_enumerate:
  "fold (\<lambda>(i, c). f i c) (enumerate 0 xs) = fold (\<lambda>i. f i (xs ! i)) [0..<length xs]"
  unfolding enumerate_nth fold_map by (simp add: comp_def)

lemma componentMap_nth:
  "componentMap md
   = map (\<lambda>i. (placeholder i, component (smartComponents md ! i))) [0..<length (smartComponents md)]"
  unfolding componentMap_def enumerate_nth by simp

lemma transformMarkdown_steps:
  "transformMarkdown md
   = fold (\<lambda>i t. case splitFirst (content (smartComponents md ! i)) t of
                    None \<Rightarrow> t
                  | Some (a, b) \<Rightarrow> a @ markerKeys md ! i @ b)
       [0..<length (smartComponents md)] md"
proof -
  have "transformMarkdown md
        = fold (\<lambda>i t. replaceFirst (content (smartComponents md ! i)) (placeholder i) t)
            [0..<length (smartComponents md)] md"
    unfolding transformMarkdown_def transformWith_def fold_enumerate ..
  also have "\<dots> = fold (\<lambda>i t. case splitFirst (content (smartComponents md ! i)) t of
                    None \<Rightarrow> t
                  | Some (a, b) \<Rightarrow> a @ markerKeys md ! i @ b)
       [0..<length (smartComponents md)] md"
    by (intro fold_cong refl)
      (simp add: replaceFirst_marker markerKeys_upt fun_eq_iff split: option.splits)
  finally show ?thesis .
qed

text \<open>
  Claim C5, as amended. The marker keys of one scan are the texts
  \<open><!--SMART_COMPONENT_i-->\<close> for \<open>i\<close> from 0 below the number of descriptors, pairwise
  distinct; key \<open>i\<close> stands for descriptor \<open>i\<close> of the scan, which holds what the six
  scanners found, in the order of the start indices; and the rewrite puts key \<open>i\<close> in the
  place of the first occurrence of the text of descriptor \<open>i\<close>, where there is one. A key
  of the scan occurs in the document before the rewrite exactly when the document holds
  \<open><!--SMART_COMPONENT_i-->\<close> for such an \<open>i\<close>, and so in no document without the text
  \<open><!--SMART_COMPONENT_\<close>.
\<close>

theorem marker_keys_synthesized:
  "markerKeys md = map placeholder [0..<length (smartComponents md)]
   \<and> componentMap md
       = map (\<lambda>i. (placeholder i, component (smartComponents md ! i)))
           [0..<length (smartComponents md)]
   \<and> distinct (markerKeys md)
   \<and> sorted (map startIndex (smartComponents md))
   \<and> set (smartComponents md)
       = set (parseCharts md @ parseTimelines md @ parseProgress md
              @ parseTasks md @ parseAlerts md @ parseStats md)
   \<and> length (smartComponents md)
       = length (parseCharts md @ parseTimelines md @ parseProgress md
                 @ parseTasks md @ parseAlerts md @ parseStats md)
   \<and> transformMarkdown md
       = fold (\<lambda>i t. case splitFirst (content (smartComponents md ! i)) t of
                        None \<Rightarrow> t
                      | Some (a, b) \<Rightarrow> a @ markerKeys md ! i @ b)
           [0..<length (smartComponents md)] md
   \<and> ((\<exists>k \<in> set (markerKeys md). sublist k md)
        \<longleftrightarrow> (\<exists>i < length (smartComponents md). sublist (placeholder i) md))
   \<and> (\<not> sublist ''<!--SMART_COMPONENT_'' md \<longrightarrow> (\<forall>k \<in> set (markerKeys md). \<not> sublist k md))"
proof (intro conjI impI ballI)
  show "markerKeys md = map placeholder [0..<length (smartComponents md)]"
    by (rule markerKeys_upt)
  show "componentMap md
       = map (\<lambda>i. (placeholder i, component (smartComponents md ! i)))
           [0..<length (smartComponents md)]"
    by (rule componentMap_nth)
  show "distinct (markerKeys md)"
    by (simp add: markerKeys_upt distinct_map inj_on_subset [OF placeholder_inj])
  show "sorted (map startIndex (smartComponents md))"
    by (simp add: smartComponents_def)
  show "set (smartComponents md)
       = set (parseCharts md @ parseTimelines md @ parseProgress md
              @ parseTasks md @ parseAlerts md @ parseStats md)"
    by (simp add: smartComponents_def)
  show "length (smartComponents md)
       = length (parseCharts md @ parseTimelines md @ parseProgress md
                 @ parseTasks md @ parseAlerts md @ parseStats md)"
    by (simp add: smartComponents_def)
  show "transformMarkdown md
       = fold (\<lambda>i t. case splitFirst (content (smartComponents md ! i)) t of
                        None \<Rightarrow> t
                      | Some (a, b) \<Rightarrow> a @ markerKeys md ! i @ b)
           [0..<length (smartComponents md)] md"
    by (rule transformMarkdown_steps)
  show "(\<exists>k \<in> set (markerKeys md). sublist k md)
        \<longleftrightarrow> (\<exists>i < length (smartComponents md). sublist (placeholder i) md)"
    by (auto simp: markerKeys_upt)
next
  fix k assume n: "\<not> sublist ''<!--SMART_COMPONENT_'' md" and "k \<in> set (markerKeys md)"
  then obtain i where "k = placeholder i" by (auto simp: markerKeys_upt)
  with n show "\<not> sublist k md"
    using sublist_order.order_trans [OF sublist_placeholder [of i], of md] by auto
qed

lemma scan_alertProgress:
  "smartComponents alertProgress
   = [mkMatch ''alert'' 0 ('':::info'' @ [CHR 0x0A] @ ''hi'' @ [CHR 0x0A] @ '':::'') (Alert ''info'' ''hi''),
      mkMatch ''progress'' 14 ''[progress:5]'' (ProgressBar (Finite 5) None)]"
  by (simp add: scanner_defs alertProgress_def)

theorem marker_keys_synthesized_witness:
  "\<not> sublist ''<!--SMART_COMPONENT_'' alertProgress
   \<and> parseProgress alertProgress @ parseAlerts alertProgress
       = [mkMatch ''progress'' 14 ''[progress:5]'' (ProgressBar (Finite 5) None),
          mkMatch ''alert'' 0 ('':::info'' @ [CHR 0x0A] @ ''hi'' @ [CHR 0x0A] @ '':::'')
            (Alert ''info'' ''hi'')]
   \<and> map startIndex (smartComponents alertProgress) = [0, 14]
   \<and> sorted (map startIndex (smartComponents alertProgress))
   \<and> markerKeys alertProgress = [''<!--SMART_COMPONENT_0-->'', ''<!--SMART_COMPONENT_1-->'']
   \<and> componentMap alertProgress
       = [(''<!--SMART_COMPONENT_0-->'', Alert ''info'' ''hi''),
          (''<!--SMART_COMPONENT_1-->'', ProgressBar (Finite 5) None)]
   \<and> transformMarkdown alertProgress = ''<!--SMART_COMPONENT_0--><!--SMART_COMPONENT_1-->''
   \<and> \<not> sublist ''<!--SMART_COMPONENT_0-->'' alertProgress
   \<and> \<not> sublist ''<!--SMART_COMPONENT_1-->'' alertProgress"
proof -
  note th = marker_keys_synthesized [of alertProgress]
  note r1 = th [THEN conjunct2]
  note r2 = r1 [THEN conjunct2]
  note r3 = r2 [THEN conjunct2]
  note r6 = r3 [THEN conjunct2, THEN conjunct2, THEN conjunct2]
  note r8 = r6 [THEN conjunct2, THEN conjunct2]
  have n: "\<not> sublist ''<!--SMART_COMPONENT_'' alertProgress"
    by (simp add: sublist_code alertProgress_def)
  have p: "parseProgress alertProgress @ parseAlerts alertProgress
       = [mkMatch ''progress'' 14 ''[progress:5]'' (ProgressBar (Finite 5) None),
          mkMatch ''alert'' 0 ('':::info'' @ [CHR 0x0A] @ ''hi'' @ [CHR 0x0A] @ '':::'')
            (Alert ''info'' ''hi'')]"
    by (simp add: scanner_defs alertProgress_def)
  have l: "[0..<length (smartComponents alertProgress)] = [0, Suc 0]"
    by (simp add: scan_alertProgress upt_rec)
  have k: "placeholder 0 = ''<!--SMART_COMPONENT_0-->''"
    "placeholder (Suc 0) = ''<!--SMART_COMPONENT_1-->''"
    by (simp_all add: placeholder_def showNat.simps digitChar_def)
  have s: "splitFirst ('':::info'' @ [CHR 0x0A] @ ''hi'' @ [CHR 0x0A] @ '':::'') alertProgress
           = Some ([], ''[progress:5]'')"
    "splitFirst ''[progress:5]'' (''<!--SMART_COMPONENT_0-->'' @ ''[progress:5]'')
           = Some (''<!--SMART_COMPONENT_0-->'', [])"
    by (simp_all add: alertProgress_def)
  have i: "map startIndex (smartComponents alertProgress) = [0, 14]"
    by (simp add: scan_alertProgress mkMatch_def)
  have m: "markerKeys alertProgress = [''<!--SMART_COMPONENT_0-->'', ''<!--SMART_COMPONENT_1-->'']"
    using th [THEN conjunct1] by (simp add: l k)
  have c: "componentMap alertProgress
       = [(''<!--SMART_COMPONENT_0-->'', Alert ''info'' ''hi''),
          (''<!--SMART_COMPONENT_1-->'', ProgressBar (Finite 5) None)]"
    using r1 [THEN conjunct1] by (simp add: l k scan_alertProgress mkMatch_def)
  have o: "sorted (map startIndex (smartComponents alertProgress))"
    using r3 [THEN conjunct1] .
  have r: "transformMarkdown alertProgress = ''<!--SMART_COMPONENT_0--><!--SMART_COMPONENT_1-->''"
    using r6 [THEN conjunct1]
    by (simp add: l m scan_alertProgress mkMatch_def s [simplified])
  have f: "\<not> sublist ''<!--SMART_COMPONENT_0-->'' alertProgress"
    "\<not> sublist ''<!--SMART_COMPONENT_1-->'' alertProgress"
    using r8 [rule_format, OF n] by (simp_all add: m)
  from n p i o m c r f show ?thesis by blast
qed

text \<open>
  Claim C5 as stated: an author can type a marker. In this document the one marker key of
  the scan is already a part of the text before the rewrite.
\<close>

theorem marker_key_typed_counterexample:
  "markerKeys ''<!--SMART_COMPONENT_0-->[progress:5]'' = [''<!--SMART_COMPONENT_0-->'']
   \<and> sublist ''<!--SMART_COMPONENT_0-->'' ''<!--SMART_COMPONENT_0-->[progress:5]''"
proof -
  have s: "smartComponents ''<!--SMART_COMPONENT_0-->[progress:5]''
    = [mkMatch ''progress'' 24 ''[progress:5]'' (ProgressBar (Finite 5) None)]"
    by (simp add: scanner_defs)
  show ?thesis
    by (simp add: markerKeys_def componentMap_def s placeholder_def showNat.simps
        digitChar_def enumerate_eq_zip sublist_code)
qed






















section \<open>Properties of the upload\<close>

lemma convert_oversize:
  "file_size f > MAX_FILE_SIZE
   \<Longrightarrow> convertImageToBase64 rd f
       = Inl (Error (''File '' @ file_name f @ '' is too large. Max size is 5MB.''))"
  by (simp add: convertImageToBase64_def)

lemma uploadFile_rejected:
  assumes "prefix ''image/'' (file_type asset)"
    and "(if file_size asset > 100 * 1024 then cmp asset else Inr asset) = Inr processed"
    and "file_size processed > MAX_FILE_SIZE"
  shows "imageMap (uploadFile cmp rd asset st) = imageMap st"
    and "addedImages (uploadFile cmp rd asset st) = addedImages st"
    and "toasts (uploadFile cmp rd asset st)
         = toasts st @ [''File '' @ file_name processed @ '' is too large. Max size is 5MB.'']"
  using assms by (simp_all add: uploadFile_def Let_def convert_oversize toastText_def)

lemma uploadFile_images:
  assumes "imageMap st = imageMap st'" "addedImages st = addedImages st'"
  shows "imageMap (uploadFile cmp rd f st) = imageMap (uploadFile cmp rd f st')
       \<and> addedImages (uploadFile cmp rd f st) = addedImages (uploadFile cmp rd f st')"
  using assms by (simp add: uploadFile_def Let_def split: sum.splits)

lemma uploadLoop_images:
  assumes "imageMap st = imageMap st'" "addedImages st = addedImages st'"
  shows "imageMap (uploadLoop cmp rd fs st) = imageMap (uploadLoop cmp rd fs st')
       \<and> addedImages (uploadLoop cmp rd fs st) = addedImages (uploadLoop cmp rd fs st')"
  using assms
proof (induction fs arbitrary: st st')
  case Nil
  then show ?case by (simp add: uploadLoop_def)
next
  case (Cons f fs)
  from uploadFile_images [OF Cons.prems, of cmp rd f]
  have "imageMap (uploadLoop cmp rd fs (uploadFile cmp rd f st))
          = imageMap (uploadLoop cmp rd fs (uploadFile cmp rd f st'))
      \<and> addedImages (uploadLoop cmp rd fs (uploadFile cmp rd f st))
          = addedImages (uploadLoop cmp rd fs (uploadFile cmp rd f st'))"
    by (intro Cons.IH) simp_all
  then show ?case by (simp add: uploadLoop_def)
qed

lemma uploadFile_toasts: "prefix (toasts st) (toasts (uploadFile cmp rd f st))"
  by (simp add: uploadFile_def Let_def split: sum.splits)

lemma uploadLoop_toasts: "prefix (toasts st) (toasts (uploadLoop cmp rd fs st))"
proof (induction fs arbitrary: st)
  case Nil
  then show ?case by (simp add: uploadLoop_def)
next
  case (Cons f fs)
  have "prefix (toasts (uploadFile cmp rd f st))
          (toasts (uploadLoop cmp rd fs (uploadFile cmp rd f st)))"
    by (rule Cons.IH)
  from prefix_order.order_trans [OF uploadFile_toasts [of st cmp rd f] this] show ?case
    by (simp add: uploadLoop_def)
qed

lemma uploadLoop_append:
  "uploadLoop cmp rd (xs @ y # ys) st
   = uploadLoop cmp rd ys (uploadFile cmp rd y (uploadLoop cmp rd xs st))"
  by (simp add: uploadLoop_def)

text \<open>
  Claim C7, as amended. An image asset whose file after the compression step (taken for
  uploads over 100 KB) is over the ceiling of 5 MB is rejected with the error that names
  the ceiling; the rejection leaves the image index and the added names of a batch of at
  most 20 files as they are without that asset, and the files are taken one after the other
  in the order of the input. A file that is no image is skipped.
\<close>

theorem oversize_rejection_local:
  assumes "prefix ''image/'' (file_type asset)"
    and "(if file_size asset > 100 * 1024 then cmp asset else Inr asset) = Inr processed"
    and "file_size processed > MAX_FILE_SIZE"
    and "length (before @ asset # after) \<le> 20"
  shows "MAX_FILE_SIZE = 5 * 1024 * 1024
    \<and> convertImageToBase64 rd processed
        = Inl (Error (''File '' @ file_name processed @ '' is too large. Max size is 5MB.''))
    \<and> ''File '' @ file_name processed @ '' is too large. Max size is 5MB.''
        \<in> set (toasts (handleImageUpload cmp rd current (before @ asset # after)))
    \<and> imageMap (handleImageUpload cmp rd current (before @ asset # after))
        = imageMap (handleImageUpload cmp rd current (before @ after))
    \<and> addedImages (handleImageUpload cmp rd current (before @ asset # after))
        = addedImages (handleImageUpload cmp rd current (before @ after))
    \<and> uploadLoop cmp rd (before @ asset # after) st
        = uploadLoop cmp rd after (uploadFile cmp rd asset (uploadLoop cmp rd before st))
    \<and> (\<not> prefix ''image/'' (file_type other) \<longrightarrow> uploadFile cmp rd other st = st)"
proof -
  define st0 where "st0 = \<lparr>imageMap = current, addedImages = [], toasts = [],
                totalOriginalSize = 0, totalCompressedSize = 0\<rparr>"
  define msg where "msg = ''File '' @ file_name processed @ '' is too large. Max size is 5MB.''"
  have with_asset: "handleImageUpload cmp rd current (before @ asset # after)
        = uploadLoop cmp rd after (uploadFile cmp rd asset (uploadLoop cmp rd before st0))"
    using assms(4) by (simp add: handleImageUpload_def st0_def uploadLoop_def Let_def)
  have without: "handleImageUpload cmp rd current (before @ after)
        = uploadLoop cmp rd after (uploadLoop cmp rd before st0)"
    using assms(4) by (auto simp: handleImageUpload_def st0_def uploadLoop_def Let_def)
  note rej = uploadFile_rejected [where cmp = cmp and rd = rd, OF assms(1-3)]
  have "msg \<in> set (toasts (uploadFile cmp rd asset (uploadLoop cmp rd before st0)))"
    by (simp add: rej(3) msg_def)
  with uploadLoop_toasts [of "uploadFile cmp rd asset (uploadLoop cmp rd before st0)" cmp rd after]
  have t: "msg \<in> set (toasts (handleImageUpload cmp rd current (before @ asset # after)))"
    unfolding with_asset by (auto simp: prefix_def)
  have i: "imageMap (handleImageUpload cmp rd current (before @ asset # after))
             = imageMap (handleImageUpload cmp rd current (before @ after))
         \<and> addedImages (handleImageUpload cmp rd current (before @ asset # after))
             = addedImages (handleImageUpload cmp rd current (before @ after))"
    unfolding with_asset without by (intro uploadLoop_images) (simp_all add: rej)
  show ?thesis
    using t i convert_oversize [OF assms(3), of rd]
    by (simp add: msg_def uploadLoop_append MAX_FILE_SIZE_def uploadFile_def)
qed

theorem oversize_rejection_local_witness:
  "prefix ''image/'' (file_type bigPhoto)
   \<and> keepSize bigPhoto = Inr bigPhoto
   \<and> file_size bigPhoto > MAX_FILE_SIZE
   \<and> toasts (handleImageUpload keepSize readerOk Map.empty [smallPng, bigPhoto, smallPng])
       = [''File photo.png is too large. Max size is 5MB.'']
   \<and> addedImages (handleImageUpload keepSize readerOk Map.empty [smallPng, bigPhoto, smallPng])
       = addedImages (handleImageUpload keepSize readerOk Map.empty [smallPng, smallPng])
   \<and> addedImages (handleImageUpload keepSize readerOk Map.empty [smallPng, bigPhoto, smallPng])
       = [''diagram.PNG'', ''diagram.PNG'']
   \<and> \<not> prefix ''image/'' (file_type bigPdf)"
proof -
  have p: "prefix ''image/'' (file_type bigPhoto)"
    and c: "(if file_size bigPhoto > 100 * 1024 then keepSize bigPhoto else Inr bigPhoto) = Inr bigPhoto"
    and k: "keepSize bigPhoto = Inr bigPhoto"
    and s: "file_size bigPhoto > MAX_FILE_SIZE"
    and l: "length ([smallPng] @ bigPhoto # [smallPng]) \<le> 20"
    by (simp_all add: bigPhoto_def keepSize_def MAX_FILE_SIZE_def)
  have a: "addedImages (handleImageUpload keepSize readerOk Map.empty [smallPng, smallPng])
           = [''diagram.PNG'', ''diagram.PNG'']"
    by (simp add: handleImageUpload_def uploadLoop_def uploadFile_def smallPng_def
        convertImageToBase64_def MAX_FILE_SIZE_def readerOk_def Let_def)
  have t: "toasts (handleImageUpload keepSize readerOk Map.empty [smallPng, bigPhoto, smallPng])
       = [''File photo.png is too large. Max size is 5MB.'']"
    by (simp add: handleImageUpload_def uploadLoop_def uploadFile_def smallPng_def bigPhoto_def
        keepSize_def convertImageToBase64_def MAX_FILE_SIZE_def readerOk_def Let_def toastText_def)
  from oversize_rejection_local
    [where cmp = keepSize and rd = readerOk and current = Map.empty and other = bigPdf,
      OF p c s l]
    p k s a t
  show ?thesis by (simp add: bigPdf_def)
qed

text \<open>
  Claim C7 as stated: an image of 6 MB that the compression step brings under the ceiling is
  accepted with no error, and a file of 6 MB that is no image is skipped with no error.
\<close>

theorem oversize_upload_counterexample:
  "file_size bigPhoto > MAX_FILE_SIZE
   \<and> toasts (handleImageUpload shrink readerOk Map.empty [bigPhoto]) = []
   \<and> addedImages (handleImageUpload shrink readerOk Map.empty [bigPhoto]) = [''photo.png'']
   \<and> imageMap (handleImageUpload shrink readerOk Map.empty [bigPhoto]) ''photo.png''
       = Some ''data:image/jpeg;base64,AAAA''
   \<and> file_size bigPdf > MAX_FILE_SIZE
   \<and> toasts (handleImageUpload shrink readerOk Map.empty [bigPdf]) = []"
  by (simp add: handleImageUpload_def uploadLoop_def uploadFile_def bigPhoto_def bigPdf_def
      shrink_def convertImageToBase64_def MAX_FILE_SIZE_def readerOk_def Let_def
      fold_update generatePathVariations_def)

section \<open>Passes of the template engine\<close>

lemma hasMarkerI: "s = a @ ''{{'' @ b @ ''}}'' @ c \<Longrightarrow> hasMarker s"
proof -
  assume s: "s = a @ ''{{'' @ b @ ''}}'' @ c"
  from splitFirst_first [of s a "''{{''" "b @ ''}}'' @ c"] s
  obtain a0 r where f: "splitFirst ''{{'' s = Some (a0, r)" and "suffix (b @ ''}}'' @ c) r"
    by auto
  then obtain z where "r = z @ b @ ''}}'' @ c" by (auto simp: suffix_def)
  then have "sublist ''}}'' r"
    using sublist_appendI [of "''}}''" "z @ b" c] by simp
  with f show ?thesis by (simp add: hasMarker_def)
qed

lemma replaceAll_no_match:
  "(\<And>t. suffix t s \<Longrightarrow> m t = None) \<Longrightarrow> replaceAll m f pre s = s"
proof (induction s arbitrary: pre)
  case Nil
  then show ?case by (simp add: replaceAll.simps)
next
  case (Cons x xs)
  have "m (x # xs) = None" using Cons.prems by simp
  moreover have "replaceAll m f (pre @ [x]) xs = xs"
    using Cons.prems by (intro Cons.IH) (simp add: suffix_Cons)
  ultimately show ?case by (simp add: replaceAll.simps)
qed

lemma replaceAllO_no_match:
  "(\<And>t. suffix t s \<Longrightarrow> m t = None) \<Longrightarrow> replaceAllO m f pre s = Returned s"
proof (induction s arbitrary: pre)
  case Nil
  then show ?case by (simp add: replaceAllO.simps)
next
  case (Cons x xs)
  have "m (x # xs) = None" using Cons.prems by simp
  moreover have "replaceAllO m f (pre @ [x]) xs = Returned xs"
    using Cons.prems by (intro Cons.IH) (simp add: suffix_Cons)
  ultimately show ?case by (simp add: replaceAllO.simps)
qed

lemma literal_marker:
  assumes "suffix t s" "matchLiteral (''{{'' @ key @ ''}}'') t = Some r"
  shows "hasMarker s"
proof -
  from assms(2) obtain z where "t = (''{{'' @ key @ ''}}'') @ z"
    by (auto simp: matchLiteral_def prefix_def split: if_splits)
  with assms(1) obtain a where "s = a @ ''{{'' @ key @ ''}}'' @ z"
    by (auto simp: suffix_def)
  then show ?thesis by (rule hasMarkerI)
qed

lemma region_marker:
  assumes "suffix t s" "matchRegion (''{{'' @ opn @ ''}}'') cls t = Some r"
  shows "hasMarker s"
proof -
  from assms(2) obtain z where "t = (''{{'' @ opn @ ''}}'') @ z"
    by (auto simp: matchRegion_def prefix_def split: if_splits)
  with assms(1) obtain a where "s = a @ ''{{'' @ opn @ ''}}'' @ z"
    by (auto simp: suffix_def)
  then show ?thesis by (rule hasMarkerI)
qed

lemma closesAt_sublist: "closesAt u = Some k \<Longrightarrow> sublist ''}}'' u"
proof -
  assume "closesAt u = Some k"
  then have "prefix ''}}'' (dropWhile isSpace u)"
    by (auto simp: closesAt_def split: if_splits)
  then obtain z where "dropWhile isSpace u = ''}}'' @ z" by (auto simp: prefix_def)
  then have "u = takeWhile isSpace u @ ''}}'' @ z"
    by (metis takeWhile_dropWhile_id)
  then show ?thesis by (metis sublist_appendI)
qed

lemma lazyCapture_sublist: "lazyCapture u = Some r \<Longrightarrow> sublist ''}}'' u"
proof (induction u arbitrary: r)
  case Nil
  then show ?case by simp
next
  case (Cons c cs)
  show ?case
  proof (cases "closesAt cs")
    case None
    with Cons.prems obtain r' where "lazyCapture cs = Some r'"
      by (auto split: if_splits)
    from Cons.IH [OF this] show ?thesis by (simp add: sublist_Cons_right)
  next
    case (Some k)
    from closesAt_sublist [OF this] show ?thesis by (simp add: sublist_Cons_right)
  qed
qed

lemma tryFrom_sublist: "tryFrom k u = Some r \<Longrightarrow> sublist ''}}'' u"
proof (induction k arbitrary: r)
  case 0
  then show ?case by (auto dest: lazyCapture_sublist)
next
  case (Suc k)
  show ?case
  proof (cases "lazyCapture (drop (Suc k) u)")
    case None
    with Suc show ?thesis by simp
  next
    case (Some q)
    from lazyCapture_sublist [OF this] have "sublist ''}}'' (drop (Suc k) u)" .
    then show ?thesis
      by (metis sublist_order.order_trans suffix_drop suffix_imp_sublist)
  qed
qed

lemma computed_marker:
  assumes "suffix t s" "matchComputed t = Some r"
  shows "hasMarker s"
proof -
  from assms(2) have p: "prefix ''{{='' t" and "tryFrom (length (takeWhile isSpace (drop 3 t))) (drop 3 t) \<noteq> None"
    by (auto simp: matchComputed_def split: if_splits option.splits)
  then have "sublist ''}}'' (drop 3 t)" by (auto dest: tryFrom_sublist)
  then obtain y z where d: "drop 3 t = y @ ''}}'' @ z" by (auto simp: sublist_def)
  from p have "t = ''{{='' @ drop 3 t" by (auto simp: prefix_def)
  with d have "t = ''{{'' @ (''='' @ y) @ ''}}'' @ z" by simp
  with assms(1) obtain a where "s = a @ ''{{'' @ (''='' @ y) @ ''}}'' @ z"
    by (auto simp: suffix_def)
  then show ?thesis by (rule hasMarkerI)
qed

lemma references_marker_free: "\<not> hasMarker s \<Longrightarrow> replaceReferences key rep s = s"
  unfolding replaceReferences_def
  by (rule replaceAll_no_match) (metis literal_marker not_Some_eq)

lemma regions_marker_free:
  "\<not> hasMarker s \<Longrightarrow> replaceRegions (''{{'' @ opn @ ''}}'') cls keep s = s"
  unfolding replaceRegions_def
  by (rule replaceAll_no_match) (metis region_marker not_Some_eq)

lemma computed_marker_free: "\<not> hasMarker s \<Longrightarrow> computedPass ev vars s = s"
  unfolding computedPass_def
  by (rule replaceAll_no_match) (metis computed_marker not_Some_eq)

lemma substitute_marker_free:
  "\<not> hasMarker s \<Longrightarrow> bareSource (var_name v) = Literal \<Longrightarrow> substituteVariable v s = Returned s"
  by (simp add: substituteVariable_def substituteText_def references_marker_free)

lemma plain_of_bare: "bareSource n = Literal \<Longrightarrow> nameSource n = Literal"
  by (auto simp: bareSource_def nameSource_def split: if_splits)

lemma if_marker_free:
  "\<not> hasMarker s \<Longrightarrow> nameSource (var_name v) = Literal \<Longrightarrow> ifStep v s = Returned s"
  using regions_marker_free [of s "''#if '' @ var_name v"]
  by (simp add: ifStep_def regionStep_def)

lemma unless_marker_free:
  "\<not> hasMarker s \<Longrightarrow> nameSource (var_name v) = Literal \<Longrightarrow> unlessStep v s = Returned s"
  using regions_marker_free [of s "''#unless '' @ var_name v"]
  by (simp add: unlessStep_def regionStep_def)

lemma list_marker_free:
  assumes "\<not> hasMarker s" "nameSource (var_name v) = Literal"
  shows "listStep jp v s = Returned s"
proof -
  have "replaceAllO (matchRegion (''{{#'' @ var_name v @ ''}}'') (''{{/'' @ var_name v @ ''}}'')) f [] s
        = Returned s" for f
    using assms(1) region_marker [of _ s "''#'' @ var_name v"]
    by (intro replaceAllO_no_match) (metis append_Cons append_Nil not_Some_eq)
  with assms(2) show ?thesis
    by (simp add: listStep_def split: option.splits json.splits)
qed

lemma foldOutcome_fixed:
  "(\<And>x. x \<in> set xs \<Longrightarrow> f x s = Returned s) \<Longrightarrow> foldOutcome f xs s = Returned s"
  by (induction xs) simp_all

lemma expand_marker_free:
  assumes "\<not> hasMarker text" "list_all (\<lambda>v. bareSource (var_name v) = Literal) vars"
  shows "processTemplate jp ev text vars = Returned text"
proof -
  from assms(2) have b: "bareSource (var_name v) = Literal" if "v \<in> set vars" for v
    using that by (simp add: list_all_iff)
  then have n: "nameSource (var_name v) = Literal" if "v \<in> set vars" for v
    using that by (simp add: plain_of_bare)
  have 1: "foldOutcome substituteVariable vars text = Returned text"
    by (intro foldOutcome_fixed substitute_marker_free assms(1) b)
  have 2: "foldOutcome (listStep jp) (filter (\<lambda>v. var_type v = TList) vars) text = Returned text"
    by (intro foldOutcome_fixed list_marker_free assms(1) n) simp
  have 3: "foldOutcome ifStep vars text = Returned text"
    by (intro foldOutcome_fixed if_marker_free assms(1) n)
  have 4: "foldOutcome unlessStep vars text = Returned text"
    by (intro foldOutcome_fixed unless_marker_free assms(1) n)
  show ?thesis
    by (simp add: processTemplate_def 1 2 3 4 computed_marker_free [OF assms(1)])
qed

lemma hasMarker_iff: "hasMarker s \<longleftrightarrow> (\<exists>a b c. s = a @ ''{{'' @ b @ ''}}'' @ c)"
proof
  assume "hasMarker s"
  then obtain a r where f: "splitFirst ''{{'' s = Some (a, r)" and "sublist ''}}'' r"
    by (auto simp: hasMarker_def split: option.splits)
  then obtain b c where "r = b @ ''}}'' @ c" by (auto simp: sublist_def)
  with splitFirst_Some [OF f] show "\<exists>a b c. s = a @ ''{{'' @ b @ ''}}'' @ c" by blast
next
  assume "\<exists>a b c. s = a @ ''{{'' @ b @ ''}}'' @ c"
  then show "hasMarker s" by (auto intro: hasMarkerI)
qed

lemma replaceAll_pre:
  "replaceAll m (\<lambda>pre. g) p s = replaceAll m (\<lambda>pre. g) q s"
proof (induction "length s" arbitrary: s p q rule: less_induct)
  case less
  show ?case
  proof (cases s)
    case Nil
    then show ?thesis by (simp add: replaceAll.simps)
  next
    case (Cons x xs)
    show ?thesis
    proof (cases "m (x # xs)")
      case None
      with Cons less [of xs "p @ [x]" "q @ [x]"] show ?thesis
        by (simp add: replaceAll.simps)
    next
      case (Some r)
      obtain n c where r: "r = (n, c)" by (cases r)
      show ?thesis
      proof (cases "n = 0")
        case True
        with Cons Some r less [of xs "p @ [x]" "q @ [x]"] show ?thesis
          by (simp add: replaceAll.simps)
      next
        case False
        then have "length (drop n (x # xs)) < length s" using Cons by simp
        from less [OF this, of "p @ take n (x # xs)" "q @ take n (x # xs)"]
        show ?thesis using Cons Some r False by (simp add: replaceAll.simps)
      qed
    qed
  qed
qed

lemma matchRegion_at:
  "matchRegion opn cls (opn @ rest)
   = (case splitFirst cls rest of
        None \<Rightarrow> None
      | Some (inner, post) \<Rightarrow> Some (length opn + length inner + length cls, inner))"
  by (simp add: matchRegion_def)

lemma matchRegion_not_prefix: "\<not> prefix opn s \<Longrightarrow> matchRegion opn cls s = None"
  by (simp add: matchRegion_def)

lemma no_region_after:
  assumes "splitFirst cls rest = None" "suffix t (opn @ rest)"
  shows "matchRegion opn cls t = None"
proof (cases "prefix opn t")
  case False
  then show ?thesis by (rule matchRegion_not_prefix)
next
  case True
  then obtain z where t: "t = opn @ z" by (auto simp: prefix_def)
  from assms(2) t obtain zs where e: "opn @ rest = (zs @ opn) @ z" by (auto simp: suffix_def)
  have "rest = drop (length opn) (opn @ rest)" by simp
  also have "\<dots> = drop (length opn) (zs @ opn) @ z"
    unfolding e by (simp del: append_assoc)
  finally have "suffix z rest" by (metis suffixI)
  with splitFirst_None [OF assms(1)] have "\<not> sublist cls z"
    by (metis sublist_order.order_trans suffix_imp_sublist)
  then have "splitFirst cls z = None"
    by (cases "splitFirst cls z") (auto dest: splitFirst_Some)
  with t show ?thesis by (simp add: matchRegion_at)
qed

lemma replaceRegions_none:
  assumes "splitFirst opn s = None"
  shows "replaceRegions opn cls keep s = s"
  unfolding replaceRegions_def
proof (rule replaceAll_no_match)
  fix t assume t: "suffix t s"
  have "\<not> prefix opn t"
  proof
    assume "prefix opn t"
    then have "sublist opn t" by (rule prefix_imp_sublist)
    with t have "sublist opn s"
      by (metis sublist_order.order_trans suffix_imp_sublist)
    with splitFirst_None [OF assms] show False by simp
  qed
  then show "matchRegion opn cls t = None" by (rule matchRegion_not_prefix)
qed

lemma replaceRegions_shift:
  "replaceAll (matchRegion opn cls) (\<lambda>pre m content post. if keep then content else []) p s
   = replaceRegions opn cls keep s"
  unfolding replaceRegions_def by (rule replaceAll_pre)

lemma replaceRegions_cut:
  assumes "opn \<noteq> []" "splitFirst opn s = Some (pre, rest)"
  shows "replaceRegions opn cls keep s
         = (case splitFirst cls rest of
              None \<Rightarrow> s
            | Some (inner, post) \<Rightarrow>
                pre @ (if keep then inner else []) @ replaceRegions opn cls keep post)"
  using assms(2)
proof (induction s arbitrary: pre)
  case Nil
  with assms(1) show ?case by (simp split: if_splits)
next
  case (Cons x xs)
  show ?case
  proof (cases "prefix opn (x # xs)")
    case True
    with Cons.prems have pre: "pre = []" and rest: "rest = drop (length opn) (x # xs)" by auto
    from True rest have s: "x # xs = opn @ rest" by (auto simp: prefix_def)
    show ?thesis
    proof (cases "splitFirst cls rest")
      case None
      have m: "matchRegion opn cls (x # xs) = None"
        unfolding s by (simp add: matchRegion_at None)
      have "replaceAll (matchRegion opn cls) (\<lambda>pre m content post. if keep then content else [])
              ([] @ [x]) xs = xs"
      proof (rule replaceAll_no_match)
        fix t assume "suffix t xs"
        then have "suffix t (opn @ rest)" unfolding s [symmetric] by (simp add: suffix_Cons)
        with None show "matchRegion opn cls t = None" by (rule no_region_after)
      qed
      with m None show ?thesis
        by (simp add: replaceRegions_def replaceAll.simps)
    next
      case (Some r)
      obtain inner post where r: "r = (inner, post)" by (cases r)
      from splitFirst_Some [OF Some [unfolded r]] have rest': "rest = inner @ cls @ post" .
      have m: "matchRegion opn cls (x # xs) = Some (length opn + length inner + length cls, inner)"
        unfolding s by (simp add: matchRegion_at Some r)
      have n: "length opn + length inner + length cls \<noteq> 0" using assms(1) by simp
      have d: "drop (length opn + length inner + length cls) (x # xs) = post"
        unfolding s rest' by simp
      have sh: "replaceAll (matchRegion opn cls) (\<lambda>pre m content post. if keep then content else [])
              ([] @ take (length opn + length inner + length cls) (x # xs)) post
            = replaceRegions opn cls keep post"
        by (rule replaceRegions_shift)
      have "replaceRegions opn cls keep (x # xs)
            = (if keep then inner else []) @ replaceRegions opn cls keep post"
        unfolding replaceRegions_def [of opn cls keep "x # xs"]
        by (subst replaceAll.simps(2)) (simp only: m n d option.case prod.case if_False sh)
      with Some r pre show ?thesis by simp
    qed
  next
    case False
    with Cons.prems obtain pre' where pre: "pre = x # pre'" and f: "splitFirst opn xs = Some (pre', rest)"
      by auto
    have m: "matchRegion opn cls (x # xs) = None"
      using False by (rule matchRegion_not_prefix)
    have sh: "replaceAll (matchRegion opn cls) (\<lambda>pre m content post. if keep then content else [])
              ([] @ [x]) xs
            = replaceRegions opn cls keep xs"
      by (rule replaceRegions_shift)
    have "replaceRegions opn cls keep (x # xs) = x # replaceRegions opn cls keep xs"
      unfolding replaceRegions_def [of opn cls keep "x # xs"]
      by (subst replaceAll.simps(2)) (simp only: m option.case sh)
    with Cons.IH [OF f] pre show ?thesis
      by (simp split: option.splits)
  qed
qed

text \<open>
  Pass 3 on a variable whose name is literal as the source of a regular expression does
  what claim C2 says: it takes each conditional region, from the leftmost opener
  \<open>{{#if name}}\<close> to the first \<open>{{/if}}\<close> after it, and puts its inner text in its place when
  the value is not empty, not \<open>false\<close> and not \<open>0\<close>, and nothing otherwise; the text after
  the region is treated the same way, and a text with no opener, or with no closer after
  the opener, is left as it is. So \<open>{{#if flag}}X{{/if}}Y\<close> with \<open>flag\<close> of value \<open>false\<close>
  expands to \<open>Y\<close>.
\<close>

lemma literal_name_conditional_regions:
  assumes "nameSource (var_name v) = Literal"
  shows "(splitFirst (''{{#if '' @ var_name v @ ''}}'') s = None \<longrightarrow> ifStep v s = Returned s)
    \<and> (splitFirst (''{{#if '' @ var_name v @ ''}}'') s = Some (pre, rest)
         \<and> splitFirst ''{{/if}}'' rest = None \<longrightarrow> ifStep v s = Returned s)
    \<and> (splitFirst (''{{#if '' @ var_name v @ ''}}'') s = Some (pre, rest)
         \<and> splitFirst ''{{/if}}'' rest = Some (inner, post) \<longrightarrow>
         (\<exists>t. ifStep v post = Returned t
            \<and> ifStep v s
                = Returned (pre @ (if var_value v \<noteq> [] \<and> var_value v \<noteq> ''false''
                                      \<and> var_value v \<noteq> ''0'' then inner else []) @ t)))
    \<and> processTemplate jp ev ''{{#if flag}}X{{/if}}Y''
          [\<lparr>var_name = ''flag'', var_value = ''false'', var_type = ty\<rparr>] = Returned ''Y''"
proof (intro conjI impI)
  have step: "ifStep v u
      = Returned (replaceRegions (''{{#if '' @ var_name v @ ''}}'') ''{{/if}}'' (truthy (var_value v)) u)"
    for u using assms by (simp add: ifStep_def regionStep_def)
  have ne: "''{{#if '' @ var_name v @ ''}}'' \<noteq> []" by simp
  {
    assume "splitFirst (''{{#if '' @ var_name v @ ''}}'') s = None"
    then show "ifStep v s = Returned s"
      unfolding step by (simp only: replaceRegions_none)
  next
    assume "splitFirst (''{{#if '' @ var_name v @ ''}}'') s = Some (pre, rest)
         \<and> splitFirst ''{{/if}}'' rest = None"
    then show "ifStep v s = Returned s"
      unfolding step by (simp only: replaceRegions_cut [OF ne] option.case)
  next
    assume "splitFirst (''{{#if '' @ var_name v @ ''}}'') s = Some (pre, rest)
         \<and> splitFirst ''{{/if}}'' rest = Some (inner, post)"
    then show "\<exists>t. ifStep v post = Returned t
            \<and> ifStep v s
                = Returned (pre @ (if var_value v \<noteq> [] \<and> var_value v \<noteq> ''false''
                                      \<and> var_value v \<noteq> ''0'' then inner else []) @ t)"
      unfolding step by (simp only: replaceRegions_cut [OF ne] option.case prod.case truthy_def) simp
  }
  show "processTemplate jp ev ''{{#if flag}}X{{/if}}Y''
          [\<lparr>var_name = ''flag'', var_value = ''false'', var_type = ty\<rparr>] = Returned ''Y''"
    by (simp add: engine_defs split: option.splits json.splits)
qed

lemma literal_names:
  "bareSource ''flag'' = Literal" "bareSource ''city'' = Literal" "nameSource ''flag'' = Literal"
  by (simp_all add: bareSource_def nameSource_def plainName_def isSyntaxChar_def quantifierLike_def
      isDigit_def)

lemma literal_name_conditional_example:
  "nameSource (var_name flagVar) = Literal
   \<and> splitFirst (''{{#if '' @ var_name flagVar @ ''}}'') ''a{{#if flag}}X{{/if}}Y''
       = Some (''a'', ''X{{/if}}Y'')
   \<and> splitFirst ''{{/if}}'' ''X{{/if}}Y'' = Some (''X'', ''Y'')
   \<and> splitFirst (''{{#if '' @ var_name flagVar @ ''}}'') ''Y'' = None
   \<and> ifStep flagVar ''Y'' = Returned ''Y''
   \<and> ifStep flagVar ''a{{#if flag}}X{{/if}}Y'' = Returned ''aY''
   \<and> splitFirst (''{{#if '' @ var_name flagVar @ ''}}'') ''{{#if flag}}X'' = Some ([], ''X'')
   \<and> splitFirst ''{{/if}}'' ''X'' = None
   \<and> ifStep flagVar ''{{#if flag}}X'' = Returned ''{{#if flag}}X''
   \<and> processTemplate noParse noEval ''{{#if flag}}X{{/if}}Y'' [flagVar] = Returned ''Y''"
proof -
  have n: "nameSource (var_name flagVar) = Literal"
    by (simp add: flagVar_def literal_names)
  have a: "splitFirst (''{{#if '' @ var_name flagVar @ ''}}'') ''a{{#if flag}}X{{/if}}Y''
       = Some (''a'', ''X{{/if}}Y'')"
    and b: "splitFirst ''{{/if}}'' ''X{{/if}}Y'' = Some (''X'', ''Y'')"
    and c: "splitFirst (''{{#if '' @ var_name flagVar @ ''}}'') ''Y'' = None"
    by (simp_all add: flagVar_def)
  from literal_name_conditional_regions [OF n, of "''Y''" "[]" "[]" "[]" "[]"] c
  have y: "ifStep flagVar ''Y'' = Returned ''Y''" by simp
  have d: "splitFirst (''{{#if '' @ var_name flagVar @ ''}}'') ''{{#if flag}}X'' = Some ([], ''X'')"
    and e: "splitFirst ''{{/if}}'' ''X'' = None"
    by (simp_all add: flagVar_def)
  from literal_name_conditional_regions [OF n, of "''{{#if flag}}X''" "[]" "''X''" "[]" "[]"] d e
  have u: "ifStep flagVar ''{{#if flag}}X'' = Returned ''{{#if flag}}X''" by simp
  from literal_name_conditional_regions [OF n, of "''a{{#if flag}}X{{/if}}Y''" "''a''" "''X{{/if}}Y''" "''X''" "''Y''"
      noParse noEval TBoolean] a b y n c d e u
  show ?thesis by (simp add: flagVar_def)
qed

text \<open>
  Claim C2 at a variable of value \<open>false\<close> whose name leaves a group open: the conditional
  region of that variable is not removed, pass 1 throws before pass 3 is reached.
\<close>

theorem conditional_region_name_throws:
  "processTemplate noParse noEval ''{{#if (}}X{{/if}}Y'' [openParenVar] = Thrown SyntaxError
   \<and> processTemplate noParse noEval ''{{#if (}}X{{/if}}Y'' [openParenVar] \<noteq> Returned ''Y''"
  by (simp add: engine_defs openParenVar_def)

text \<open>A text with no marker, expanded with two variables of literal names
  (\<open>expand_marker_free\<close>): the text itself.\<close>

lemma marker_free_example:
  "\<not> hasMarker ''Hello Paris, {{ and }''
   \<and> list_all (\<lambda>v. bareSource (var_name v) = Literal) [cityVar, flagVar]
   \<and> processTemplate noParse noEval ''Hello Paris, {{ and }'' [cityVar, flagVar]
       = Returned ''Hello Paris, {{ and }''"
proof -
  have m: "\<not> hasMarker ''Hello Paris, {{ and }''"
    by (simp add: hasMarker_def sublist_code)
  have l: "list_all (\<lambda>v. bareSource (var_name v) = Literal) [cityVar, flagVar]"
    by (simp add: cityVar_def flagVar_def literal_names)
  from expand_marker_free [OF m l, of noParse noEval] m l show ?thesis by simp
qed

text \<open>
  Claim C9 at a variable whose name leaves a group open: the expansion of a text with no
  marker does not return the text, pass 1 throws.
\<close>

theorem marker_free_text_name_throws:
  "\<not> hasMarker ''plain text''
   \<and> processTemplate noParse noEval ''plain text'' [openParenVar] = Thrown SyntaxError
   \<and> processTemplate noParse noEval ''plain text'' [openParenVar] \<noteq> Returned ''plain text''"
  by (simp add: engine_defs openParenVar_def hasMarker_def)

lemma matchLiteral_not_prefix: "\<not> prefix lit s \<Longrightarrow> matchLiteral lit s = None"
  by (simp add: matchLiteral_def)

lemma references_none:
  assumes "splitFirst (''{{'' @ key @ ''}}'') s = None"
  shows "replaceReferences key rep s = s"
  unfolding replaceReferences_def
proof (rule replaceAll_no_match)
  fix t assume t: "suffix t s"
  have "\<not> prefix (''{{'' @ key @ ''}}'') t"
  proof
    assume "prefix (''{{'' @ key @ ''}}'') t"
    then have "sublist (''{{'' @ key @ ''}}'') t" by (rule prefix_imp_sublist)
    with t have "sublist (''{{'' @ key @ ''}}'') s"
      by (metis sublist_order.order_trans suffix_imp_sublist)
    with splitFirst_None [OF assms] show False by simp
  qed
  then show "matchLiteral (''{{'' @ key @ ''}}'') t = None" by (rule matchLiteral_not_prefix)
qed

lemma references_cut:
  assumes "CHR ''$'' \<notin> set rep" "splitFirst (''{{'' @ key @ ''}}'') s = Some (pre, post)"
  shows "replaceReferences key rep s = pre @ rep @ replaceReferences key rep post"
proof -
  define lit where "lit = ''{{'' @ key @ ''}}''"
  have ne: "length lit \<noteq> 0" by (simp add: lit_def)
  have r: "replaceReferences key rep u = replaceAll (matchLiteral lit) (\<lambda>pre m c post. rep) [] u" for u
    using assms(1) by (simp add: replaceReferences_def getSubstitution_plain lit_def)
  have "replaceAll (matchLiteral lit) (\<lambda>pre m c post. rep) [] s
        = pre @ rep @ replaceAll (matchLiteral lit) (\<lambda>pre m c post. rep) [] post"
    using assms(2) [folded lit_def]
  proof (induction s arbitrary: pre)
    case Nil
    with ne show ?case by (simp split: if_splits)
  next
    case (Cons x xs)
    show ?case
    proof (cases "prefix lit (x # xs)")
      case True
      with Cons.prems have pre: "pre = []" and post: "post = drop (length lit) (x # xs)" by auto
      from True have m: "matchLiteral lit (x # xs) = Some (length lit, ())"
        by (simp add: matchLiteral_def)
      have sh: "replaceAll (matchLiteral lit) (\<lambda>pre m c post. rep)
                  (take (length lit) (x # xs)) (drop (length lit) (x # xs))
                = replaceAll (matchLiteral lit) (\<lambda>pre m c post. rep) [] post"
        unfolding post by (rule replaceAll_pre)
      show ?thesis
        by (subst replaceAll.simps(2)) (simp only: m ne option.case prod.case if_False sh pre append_Nil)
    next
      case False
      with Cons.prems obtain pre' where pre: "pre = x # pre'"
        and f: "splitFirst lit xs = Some (pre', post)" by auto
      have m: "matchLiteral lit (x # xs) = None"
        using False by (rule matchLiteral_not_prefix)
      have sh: "replaceAll (matchLiteral lit) (\<lambda>pre m c post. rep) [x] xs
                = replaceAll (matchLiteral lit) (\<lambda>pre m c post. rep) [] xs"
        by (rule replaceAll_pre)
      show ?thesis
        by (subst replaceAll.simps(2)) (simp only: m option.case sh Cons.IH [OF f] pre append_Cons append_Nil)
    qed
  qed
  then show ?thesis by (simp only: r)
qed

lemma passes_of_literal_names:
  assumes "list_all (\<lambda>v. bareSource (var_name v) = Literal) vars"
  shows "processTemplate jp ev document vars
      = andThen (foldOutcome (listStep jp) (filter (\<lambda>v. var_type v = TList) vars)
                   (fold (\<lambda>v. replaceReferences (var_name v) (var_value v)) vars document))
          (\<lambda>listed. Returned (computedPass ev vars
             (fold (\<lambda>v. replaceRegions (''{{#unless '' @ var_name v @ ''}}'') ''{{/unless}}''
                          (\<not> truthy (var_value v))) vars
               (fold (\<lambda>v. replaceRegions (''{{#if '' @ var_name v @ ''}}'') ''{{/if}}''
                            (truthy (var_value v))) vars listed))))"
proof -
  from assms have b: "bareSource (var_name v) = Literal" if "v \<in> set vars" for v
    using that by (simp add: list_all_iff)
  then have n: "nameSource (var_name v) = Literal" if "v \<in> set vars" for v
    using that by (simp add: plain_of_bare)
  have 1: "foldOutcome substituteVariable vars t
           = Returned (fold (\<lambda>v. replaceReferences (var_name v) (var_value v)) vars t)" for t
    by (intro foldOutcome_returned) (simp add: substituteVariable_def substituteText_def b)
  have 3: "foldOutcome ifStep vars t
           = Returned (fold (\<lambda>v. replaceRegions (''{{#if '' @ var_name v @ ''}}'') ''{{/if}}''
                            (truthy (var_value v))) vars t)" for t
    by (intro foldOutcome_returned) (simp add: ifStep_def regionStep_def n)
  have 4: "foldOutcome unlessStep vars t
           = Returned (fold (\<lambda>v. replaceRegions (''{{#unless '' @ var_name v @ ''}}'') ''{{/unless}}''
                          (\<not> truthy (var_value v))) vars t)" for t
    by (intro foldOutcome_returned) (simp add: unlessStep_def regionStep_def n)
  show ?thesis
    by (simp add: processTemplate_def 1 3 4)
qed

text \<open>
  The five passes on two variables of literal names, through \<open>passes_of_literal_names\<close>:
  the reference is replaced in pass 1 and the inverse conditional region in pass 4.
\<close>

lemma literal_names_example:
  "list_all (\<lambda>v. bareSource (var_name v) = Literal) [cityVar, flagVar]
   \<and> replaceReferences ''city'' (var_value cityVar) ''Hello {{city}}!{{#unless flag}} Bye{{/unless}}''
       = ''Hello Paris!{{#unless flag}} Bye{{/unless}}''
   \<and> processTemplate noParse noEval ''Hello {{city}}!{{#unless flag}} Bye{{/unless}}'' [cityVar, flagVar]
       = Returned ''Hello Paris! Bye''"
proof -
  have l: "list_all (\<lambda>v. bareSource (var_name v) = Literal) [cityVar, flagVar]"
    by (simp add: cityVar_def flagVar_def literal_names)
  from passes_of_literal_names [OF l, of noParse noEval
      "''Hello {{city}}!{{#unless flag}} Bye{{/unless}}''"] l
  show ?thesis
    by (simp add: cityVar_def flagVar_def listStep_def noParse_def computedPass_def
        replaceRegions_def replaceReferences_def matchRegion_def matchLiteral_def
        matchComputed_def truthy_def replaceAll.simps)
qed

text \<open>
  Claim C1 at a variable of value \<open>$$\<close>: pass 1 does not put the raw value in the place of
  the reference, it puts \<open>$\<close> there, since the value is handed over as a replacement
  pattern; a value with a dollar sign that starts no pattern, as \<open>$1,000\<close>, is put in as it
  is. And at a variable whose name leaves a group open there are no five passes: pass 1
  throws.
\<close>

theorem dollar_value_not_verbatim:
  "processTemplate noParse noEval ''{{p}}''
     [\<lparr>var_name = ''p'', var_value = ''$$'', var_type = TText\<rparr>] = Returned ''$''
   \<and> processTemplate noParse noEval ''{{p}}''
     [\<lparr>var_name = ''p'', var_value = ''$$'', var_type = TText\<rparr>] \<noteq> Returned ''$$''
   \<and> processTemplate noParse noEval ''{{p}}''
     [\<lparr>var_name = ''p'', var_value = ''$1,000'', var_type = TText\<rparr>] = Returned ''$1,000''
   \<and> processTemplate noParse noEval ''Hello'' [openParenVar] = Thrown SyntaxError"
  by (simp add: engine_defs openParenVar_def)

text \<open>What claim C4 says of an expression that does not evaluate holds of pass 5, and the
  expansion throws nothing when the names are literal.\<close>

lemma replaceAll_same:
  "replaceAll m (\<lambda>pre mt c post. mt) p s = s"
proof (induction "length s" arbitrary: s p rule: less_induct)
  case less
  show ?case
  proof (cases s)
    case Nil
    then show ?thesis by (cases "m []") (auto simp: replaceAll.simps)
  next
    case (Cons x xs)
    show ?thesis
    proof (cases "m (x # xs)")
      case None
      with Cons less [of xs "p @ [x]"] show ?thesis
        by (simp add: replaceAll.simps)
    next
      case (Some r)
      obtain n c where r: "r = (n, c)" by (cases r)
      show ?thesis
      proof (cases "n = 0")
        case True
        with Cons Some r less [of xs "p @ [x]"] show ?thesis
          by (simp add: replaceAll.simps)
      next
        case False
        then have "length (drop n (x # xs)) < length s" using Cons by simp
        from less [OF this, of "p @ take n (x # xs)"]
        show ?thesis using Cons Some r False by (simp add: replaceAll.simps)
      qed
    qed
  qed
qed

lemma failing_expressions_kept:
  assumes "\<And>e. ev (contextOf vars) (safeExpression e) = None"
  shows "computedPass ev vars s = s"
proof -
  have e: "(\<lambda>pre m expression post. evalComputed ev vars m expression)
        = (\<lambda>(pre :: string) (m :: string) (expression :: string) (post :: string). m)"
    by (simp add: evalComputed_def assms fun_eq_iff)
  show ?thesis
    unfolding computedPass_def e by (rule replaceAll_same)
qed

lemma failing_expression_span_kept:
  assumes "matchComputed s = Some (n, expression)"
    and "ev (contextOf vars) (safeExpression expression) = None"
  shows "computedPass ev vars s = take n s @ computedPass ev vars (drop n s)"
proof -
  from assms(1) have n: "n \<noteq> 0"
    by (auto simp: matchComputed_def split: if_splits option.splits)
  from assms(1) obtain x xs where s: "s = x # xs"
    by (cases s) (auto simp: matchComputed_def)
  have sh: "replaceAll matchComputed (\<lambda>pre m expression post. evalComputed ev vars m expression)
              ([] @ take n (x # xs)) (drop n (x # xs))
            = computedPass ev vars (drop n (x # xs))"
    unfolding computedPass_def by (rule replaceAll_pre)
  have "computedPass ev vars (x # xs)
        = evalComputed ev vars (take n (x # xs)) expression
          @ computedPass ev vars (drop n (x # xs))"
    unfolding computedPass_def [of ev vars "x # xs"]
    by (subst replaceAll.simps(2))
      (simp only: assms(1) [unfolded s] n option.case prod.case if_False sh)
  with assms(2) show ?thesis
    unfolding s by (simp add: evalComputed_def)
qed

lemma listStep_never_throws: "listStep jp v s \<noteq> Thrown e"
  by (simp add: listStep_def split: option.splits json.splits regex_source.splits outcome.splits)

lemma foldOutcome_never_throws:
  "(\<And>x t. f x t \<noteq> Thrown e) \<Longrightarrow> foldOutcome f xs s \<noteq> Thrown e"
proof (induction xs arbitrary: s)
  case Nil
  then show ?case by simp
next
  case (Cons x xs)
  show ?case
  proof (cases "f x s")
    case (Returned t)
    with Cons show ?thesis by simp
  next
    case (Thrown e')
    with Cons.prems [of x s] show ?thesis by auto
  next
    case Unmodelled
    then show ?thesis by simp
  qed
qed

lemma literal_names_never_throw:
  assumes "list_all (\<lambda>v. bareSource (var_name v) = Literal) vars"
  shows "processTemplate jp ev document vars \<noteq> Thrown e"
proof -
  have "foldOutcome (listStep jp) xs t \<noteq> Thrown e" for xs t
    by (rule foldOutcome_never_throws) (rule listStep_never_throws)
  then show ?thesis
    unfolding passes_of_literal_names [OF assms]
    by (cases "foldOutcome (listStep jp) (filter (\<lambda>v. var_type v = TList) vars)
                 (fold (\<lambda>v. replaceReferences (var_name v) (var_value v)) vars document)")
      auto
qed

end
